theory Spec2Isabelle
  imports Complex_Main "HOL-Library.Log_Nat"
begin

section \<open>C floating-point values\<close>

text \<open>
  \<^verbatim>\<open>Triangle.cpp\<close> computes with \<^verbatim>\<open>float\<close> (IEEE 754 binary32) and, in one
  product, with \<^verbatim>\<open>double\<close> (binary64). A value of either type is modelled by what it
  denotes: not-a-number, an infinity, or a rational. Every arithmetic operation rounds
  its exact result to the format of its C type, to nearest with ties to even (the
  default rounding mode, with no excess precision in intermediate results). The sign
  of zero is not modelled: the program never divides by a variable that can be zero,
  and comparisons do not see it.
\<close>

datatype cfloat = NaN | PInf | NInf | Fin rat

record fformat =
  prec :: nat
  emin :: int
  emax :: int

definition binary32 :: fformat where
  "binary32 = \<lparr>prec = 24, emin = -126, emax = 127\<rparr>"

definition binary64 :: fformat where
  "binary64 = \<lparr>prec = 53, emin = -1022, emax = 1023\<rparr>"

text \<open>\<open>ilog2 q\<close> is the exponent of the binade of a positive rational: \<open>\<lfloor>log\<^sub>2 q\<rfloor>\<close>.\<close>

definition ilog2 :: "rat \<Rightarrow> int" where
  "ilog2 q = (if 1 \<le> q then bitlen \<lfloor>q\<rfloor> - 1 else - bitlen (\<lceil>1 / q\<rceil> - 1))"

definition round_even :: "rat \<Rightarrow> int" where
  "round_even x =
     (let f = \<lfloor>x\<rfloor>; d = x - of_int f
      in if d < 1 / 2 then f
         else if 1 / 2 < d then f + 1
         else if even f then f else f + 1)"

text \<open>The spacing of the format's values around \<open>q\<close> (subnormal below \<open>2 ^ emin\<close>).\<close>

definition ulp_of :: "fformat \<Rightarrow> rat \<Rightarrow> rat" where
  "ulp_of fmt q = power_int 2 (max (ilog2 \<bar>q\<bar>) (emin fmt) - int (prec fmt) + 1)"

definition rnd_mag :: "fformat \<Rightarrow> rat \<Rightarrow> rat" where
  "rnd_mag fmt q = of_int (round_even (\<bar>q\<bar> / ulp_of fmt q)) * ulp_of fmt q"

definition rnd :: "fformat \<Rightarrow> rat \<Rightarrow> cfloat" where
  "rnd fmt q =
     (if q = 0 then Fin 0
      else if power_int 2 (emax fmt + 1) \<le> rnd_mag fmt q
        then (if 0 < q then PInf else NInf)
      else Fin (sgn q * rnd_mag fmt q))"

fun fneg :: "cfloat \<Rightarrow> cfloat" where
  "fneg NaN = NaN"
| "fneg PInf = NInf"
| "fneg NInf = PInf"
| "fneg (Fin x) = Fin (- x)"

fun fadd :: "fformat \<Rightarrow> cfloat \<Rightarrow> cfloat \<Rightarrow> cfloat" where
  "fadd fmt NaN b = NaN"
| "fadd fmt PInf b = (case b of NaN \<Rightarrow> NaN | NInf \<Rightarrow> NaN | _ \<Rightarrow> PInf)"
| "fadd fmt NInf b = (case b of NaN \<Rightarrow> NaN | PInf \<Rightarrow> NaN | _ \<Rightarrow> NInf)"
| "fadd fmt (Fin x) b = (case b of Fin y \<Rightarrow> rnd fmt (x + y) | _ \<Rightarrow> b)"

definition fsub :: "fformat \<Rightarrow> cfloat \<Rightarrow> cfloat \<Rightarrow> cfloat" where
  "fsub fmt a b = fadd fmt a (fneg b)"

text \<open>The sign of a value: \<open>1\<close>, \<open>0\<close> or \<open>-1\<close> (\<open>NaN\<close> has none and is handled before).\<close>

fun fsgn :: "cfloat \<Rightarrow> rat" where
  "fsgn NaN = 0"
| "fsgn PInf = 1"
| "fsgn NInf = - 1"
| "fsgn (Fin x) = sgn x"

definition inf_of_sign :: "rat \<Rightarrow> cfloat" where
  "inf_of_sign s = (if s = 0 then NaN else if 0 < s then PInf else NInf)"

fun fmul :: "fformat \<Rightarrow> cfloat \<Rightarrow> cfloat \<Rightarrow> cfloat" where
  "fmul fmt NaN b = NaN"
| "fmul fmt a NaN = NaN"
| "fmul fmt (Fin x) (Fin y) = rnd fmt (x * y)"
| "fmul fmt a b = inf_of_sign (fsgn a * fsgn b)"

text \<open>
  Division by zero takes the zero as positive; the only divisor of the program is the
  constant \<^verbatim>\<open>jumpDuration = 1.0f\<close>.
\<close>

fun fdiv :: "fformat \<Rightarrow> cfloat \<Rightarrow> cfloat \<Rightarrow> cfloat" where
  "fdiv fmt NaN b = NaN"
| "fdiv fmt a NaN = NaN"
| "fdiv fmt (Fin x) (Fin y) = (if y = 0 then inf_of_sign (sgn x) else rnd fmt (x / y))"
| "fdiv fmt (Fin x) b = Fin 0"
| "fdiv fmt a (Fin y) = inf_of_sign (fsgn a * (if y < 0 then - 1 else 1))"
| "fdiv fmt a b = NaN"

text \<open>Conversion to a format, as in the initialisation of a \<^verbatim>\<open>float\<close> by a \<^verbatim>\<open>double\<close>.\<close>

fun cast :: "fformat \<Rightarrow> cfloat \<Rightarrow> cfloat" where
  "cast fmt (Fin x) = rnd fmt x"
| "cast fmt a = a"

text \<open>The four mutually exclusive relations of an IEEE comparison.\<close>

datatype cmp = Less | Equal | Greater | Unordered

fun fcompare :: "cfloat \<Rightarrow> cfloat \<Rightarrow> cmp" where
  "fcompare NaN b = Unordered"
| "fcompare PInf b = (case b of NaN \<Rightarrow> Unordered | PInf \<Rightarrow> Equal | _ \<Rightarrow> Greater)"
| "fcompare NInf b = (case b of NaN \<Rightarrow> Unordered | NInf \<Rightarrow> Equal | _ \<Rightarrow> Less)"
| "fcompare (Fin x) b =
     (case b of NaN \<Rightarrow> Unordered | PInf \<Rightarrow> Less | NInf \<Rightarrow> Greater
      | Fin y \<Rightarrow> if x < y then Less else if x = y then Equal else Greater)"

definition flt :: "cfloat \<Rightarrow> cfloat \<Rightarrow> bool" where
  "flt a b = (fcompare a b = Less)"

definition fgt :: "cfloat \<Rightarrow> cfloat \<Rightarrow> bool" where
  "fgt a b = (fcompare a b = Greater)"

definition fle :: "cfloat \<Rightarrow> cfloat \<Rightarrow> bool" where
  "fle a b = (fcompare a b = Less \<or> fcompare a b = Equal)"

definition feq :: "cfloat \<Rightarrow> cfloat \<Rightarrow> bool" where
  "feq a b = (fcompare a b = Equal)"

fun is_nan :: "cfloat \<Rightarrow> bool" where
  "is_nan NaN = True"
| "is_nan a = False"

fun is_finite :: "cfloat \<Rightarrow> bool" where
  "is_finite (Fin x) = True"
| "is_finite a = False"

subsection \<open>The operators of the two C types\<close>

definition add_f :: "cfloat \<Rightarrow> cfloat \<Rightarrow> cfloat" where
  "add_f = fadd binary32"

definition sub_f :: "cfloat \<Rightarrow> cfloat \<Rightarrow> cfloat" where
  "sub_f = fsub binary32"

definition mul_f :: "cfloat \<Rightarrow> cfloat \<Rightarrow> cfloat" where
  "mul_f = fmul binary32"

definition div_f :: "cfloat \<Rightarrow> cfloat \<Rightarrow> cfloat" where
  "div_f = fdiv binary32"

definition mul_d :: "cfloat \<Rightarrow> cfloat \<Rightarrow> cfloat" where
  "mul_d = fmul binary64"

definition to_float :: "cfloat \<Rightarrow> cfloat" where
  "to_float = cast binary32"

text \<open>A decimal literal with suffix \<^verbatim>\<open>f\<close>, and one without.\<close>

definition lit_f :: "rat \<Rightarrow> cfloat" where
  "lit_f q = rnd binary32 q"

definition lit_d :: "rat \<Rightarrow> cfloat" where
  "lit_d q = rnd binary64 q"

text \<open>\<^verbatim>\<open>#define M_PI 3.14159265358979323846\<close>\<close>

definition M_PI :: cfloat where
  "M_PI = lit_d (314159265358979323846 / 10 ^ 20)"

section \<open>Matrices\<close>

text \<open>
  \<^verbatim>\<open>float* matrix\<close> points to the caller's array; the functions write sixteen slots of
  it. A buffer with fewer slots is undefined behaviour in C: the model returns \<open>None\<close>.
\<close>

definition identityMatrix :: "cfloat list \<Rightarrow> cfloat list option" where
  "identityMatrix matrix =
     (if length matrix < 16 then None
      else Some (fold (\<lambda>i m. m[i := (if i mod 5 = 0 then lit_f 1 else lit_f 0)]) [0..<16] matrix))"

definition createTranslationMatrix :: "cfloat \<Rightarrow> cfloat \<Rightarrow> cfloat list \<Rightarrow> cfloat list option" where
  "createTranslationMatrix x y matrix =
     (case identityMatrix matrix of
        None \<Rightarrow> None
      | Some m \<Rightarrow> Some (m[3 := x, 7 := y]))"

section \<open>Collision tests\<close>

definition checkCollision ::
  "cfloat \<Rightarrow> cfloat \<Rightarrow> cfloat \<Rightarrow> cfloat \<Rightarrow> cfloat \<Rightarrow> cfloat \<Rightarrow> cfloat \<Rightarrow> cfloat \<Rightarrow> bool" where
  "checkCollision x1 y1 width1 height1 x2 y2 width2 height2 =
     (\<not> (flt (add_f x1 width1) x2 \<or> fgt x1 (add_f x2 width2)
        \<or> flt (add_f y1 height1) y2 \<or> fgt y1 (add_f y2 height2)))"

definition checkCollisionDirection ::
  "cfloat \<Rightarrow> cfloat \<Rightarrow> cfloat \<Rightarrow> cfloat \<Rightarrow> cfloat \<Rightarrow> cfloat \<Rightarrow> cfloat \<Rightarrow> cfloat \<Rightarrow> int" where
  "checkCollisionDirection x1 y1 width1 height1 x2 y2 width2 height2 =
     (if fgt (add_f x1 width1) x2 \<and> flt x1 (add_f x2 width2)
         \<and> fgt (add_f y1 height1) y2 \<and> flt y1 (add_f y2 height2)
      then
        if (fgt (add_f x1 width1) x2 \<and> flt x1 x2)
           \<and> (fgt (add_f y1 height1) y2 \<and> flt y1 (add_f y2 height2)) then 1
        else if (flt x1 (add_f x2 width2) \<and> fgt (add_f x1 width1) (add_f x2 width2))
           \<and> (fgt (add_f y1 height1) y2 \<and> flt y1 (add_f y2 height2)) then 2
        else if (fgt (add_f y1 height1) y2 \<and> flt y1 y2)
           \<and> (fgt (add_f x1 width1) x2 \<and> flt x1 (add_f x2 width2)) then 3
        else if (flt y1 (add_f y2 height2) \<and> fgt (add_f y1 height1) (add_f y2 height2))
           \<and> (fgt (add_f x1 width1) x2 \<and> flt x1 (add_f x2 width2)) then 4
        else 0
      else 0)"

text \<open>
  The boxes of the specification, to compare the test with: a box is the rectangle from
  \<open>(x, y)\<close> to \<open>(x + w, y + h)\<close>, its edges included, with exact sums. Two closed intervals
  have a point in common when the larger of the lower ends is at most the smaller of the
  upper ends, and two boxes when their intervals do on both axes.
\<close>

definition intervals_meet :: "rat \<Rightarrow> rat \<Rightarrow> rat \<Rightarrow> rat \<Rightarrow> bool" where
  "intervals_meet lo1 hi1 lo2 hi2 = (max lo1 lo2 \<le> min hi1 hi2)"

definition boxes_meet :: "rat \<Rightarrow> rat \<Rightarrow> rat \<Rightarrow> rat \<Rightarrow> rat \<Rightarrow> rat \<Rightarrow> rat \<Rightarrow> rat \<Rightarrow> bool" where
  "boxes_meet x1 y1 w1 h1 x2 y2 w2 h2 =
     (intervals_meet x1 (x1 + w1) x2 (x2 + w2) \<and> intervals_meet y1 (y1 + h1) y2 (y2 + h2))"

text \<open>The rationals that are values of the type \<^verbatim>\<open>float\<close>: rounding leaves them as they are.\<close>

definition is_float :: "rat \<Rightarrow> bool" where
  "is_float q = (rnd binary32 q = Fin q)"

section \<open>The frame loop\<close>

text \<open>
  What the window system answers in one iteration of the render loop: the clock
  (\<^verbatim>\<open>glfwGetTime\<close>, a \<^verbatim>\<open>double\<close>), the four keys, and whether the user asked to close the
  window (seen by \<^verbatim>\<open>glfwPollEvents\<close>, which then sets the window's close flag).
\<close>

record frame_input =
  glfwGetTime :: cfloat
  key_escape :: bool
  key_left :: bool
  key_right :: bool
  key_space :: bool
  close_request :: bool

text \<open>The local variables of \<^verbatim>\<open>main\<close> that the loop changes, and the window's close flag.\<close>

record loop_state =
  translationX :: cfloat
  isJumping :: bool
  isFalling :: bool
  jumpHeight :: cfloat
  jumpStartTime :: cfloat
  deltaTime :: cfloat
  lastFrame :: cfloat
  shouldClose :: bool

text \<open>Locals that are initialised and never assigned again.\<close>

definition translationY :: cfloat where
  "translationY = lit_f (- (75 / 100))"

definition squareTranslationX :: cfloat where
  "squareTranslationX = lit_f 0"

definition squareTranslationY :: cfloat where
  "squareTranslationY = lit_f (- (5 / 10))"

definition jumpSpeed :: cfloat where
  "jumpSpeed = lit_f (1 / 10)"

definition jumpDuration :: cfloat where
  "jumpDuration = lit_f 1"

definition initial_state :: loop_state where
  "initial_state =
     \<lparr>translationX = lit_f (- 1), isJumping = False, isFalling = False,
      jumpHeight = lit_f 0, jumpStartTime = lit_f 0, deltaTime = lit_f 0,
      lastFrame = lit_f 0, shouldClose = False\<rparr>"

text \<open>Lines 213 to 215: the time step, computed and not used.\<close>

definition time_step :: "cfloat \<Rightarrow> loop_state \<Rightarrow> loop_state" where
  "time_step currentFrame s =
     s\<lparr>deltaTime := sub_f currentFrame (lastFrame s), lastFrame := currentFrame\<rparr>"

text \<open>Lines 218 to 225: escape sets the close flag, the arrows move the triangle.\<close>

definition escape_step :: "frame_input \<Rightarrow> loop_state \<Rightarrow> loop_state" where
  "escape_step f s = (if key_escape f then s\<lparr>shouldClose := True\<rparr> else s)"

definition move_step :: "frame_input \<Rightarrow> loop_state \<Rightarrow> loop_state" where
  "move_step f s =
     (let s1 = (if key_left f then s\<lparr>translationX := sub_f (translationX s) (lit_f (1 / 100))\<rparr> else s)
      in if key_right f then s1\<lparr>translationX := add_f (translationX s1) (lit_f (1 / 100))\<rparr> else s1)"

text \<open>Lines 228 to 232: space starts a jump unless one is under way.\<close>

definition space_step :: "cfloat \<Rightarrow> frame_input \<Rightarrow> loop_state \<Rightarrow> loop_state" where
  "space_step currentFrame f s =
     (if key_space f \<and> \<not> isJumping s
      then s\<lparr>isJumping := True, jumpStartTime := currentFrame, isFalling := False\<rparr>
      else s)"

text \<open>
  Lines 235 to 245. \<^verbatim>\<open>sinf\<close> is the C library's and is a parameter of the model. In
  \<^verbatim>\<open>sinf(jumpProgress * M_PI)\<close> the product is a product of doubles (the conversion of
  \<^verbatim>\<open>jumpProgress\<close> to \<^verbatim>\<open>double\<close> is exact) and is converted to \<^verbatim>\<open>float\<close> for \<^verbatim>\<open>sinf\<close>.
\<close>

definition jumpProgress :: "cfloat \<Rightarrow> loop_state \<Rightarrow> cfloat" where
  "jumpProgress currentFrame s = div_f (sub_f currentFrame (jumpStartTime s)) jumpDuration"

definition jump_curve :: "(cfloat \<Rightarrow> cfloat) \<Rightarrow> cfloat \<Rightarrow> cfloat" where
  "jump_curve sinf progress = mul_f (sinf (to_float (mul_d progress M_PI))) (lit_f (5 / 10))"

definition jump_step :: "(cfloat \<Rightarrow> cfloat) \<Rightarrow> cfloat \<Rightarrow> loop_state \<Rightarrow> loop_state" where
  "jump_step sinf currentFrame s =
     (if isJumping s then
        if flt (jumpProgress currentFrame s) (lit_f 1)
        then s\<lparr>jumpHeight := jump_curve sinf (jumpProgress currentFrame s)\<rparr>
        else s\<lparr>jumpHeight := lit_f 0, isJumping := False, isFalling := True\<rparr>
      else s)"

text \<open>Lines 248 to 254.\<close>

definition fall_step :: "loop_state \<Rightarrow> loop_state" where
  "fall_step s =
     (if isFalling s then
        if fle (sub_f (jumpHeight s) jumpSpeed) (lit_f 0)
        then s\<lparr>jumpHeight := lit_f 0, isFalling := False\<rparr>
        else s\<lparr>jumpHeight := sub_f (jumpHeight s) jumpSpeed\<rparr>
      else s)"

text \<open>Line 292: \<^verbatim>\<open>glfwPollEvents\<close> sets the close flag when the user closed the window.\<close>

definition poll_step :: "frame_input \<Rightarrow> loop_state \<Rightarrow> loop_state" where
  "poll_step f s = (if close_request f then s\<lparr>shouldClose := True\<rparr> else s)"

text \<open>One iteration of the loop body, in the order of the source.\<close>

definition frame_step :: "(cfloat \<Rightarrow> cfloat) \<Rightarrow> frame_input \<Rightarrow> loop_state \<Rightarrow> loop_state" where
  "frame_step sinf f s =
     (let currentFrame = to_float (glfwGetTime f)
      in poll_step f (fall_step (jump_step sinf currentFrame (space_step currentFrame f
           (move_step f (escape_step f (time_step currentFrame s)))))))"

text \<open>
  Lines 257 to 289: what an iteration draws from the state after the fall step. The
  array \<^verbatim>\<open>transform\<close> is uninitialised when first used: its content is an argument.
\<close>

record frame_output =
  isColliding :: bool
  triangleColor :: "cfloat list"
  triangleTransform :: "cfloat list option"
  squareTransform :: "cfloat list option"

definition draw_frame :: "cfloat list \<Rightarrow> loop_state \<Rightarrow> frame_output" where
  "draw_frame transform s =
     (let colliding =
            checkCollision (translationX s) (add_f translationY (jumpHeight s))
              (lit_f (5 / 10)) (lit_f (5 / 10))
              (sub_f squareTranslationX (lit_f (25 / 100)))
              (sub_f squareTranslationY (lit_f (25 / 100)))
              (lit_f (5 / 10)) (lit_f (5 / 10));
          t1 = createTranslationMatrix (translationX s) (add_f translationY (jumpHeight s)) transform
      in \<lparr>isColliding = colliding,
          triangleColor =
            (if colliding then [lit_f 1, lit_f 0, lit_f 0, lit_f 1]
             else [lit_f (4 / 10), lit_f (8 / 10), lit_f (6 / 10), lit_f 1]),
          triangleTransform = t1,
          squareTransform =
            (case t1 of None \<Rightarrow> None
             | Some m \<Rightarrow> createTranslationMatrix squareTranslationX squareTranslationY m)\<rparr>)"

text \<open>
  The loop \<^verbatim>\<open>while (!glfwWindowShouldClose(window))\<close> over the inputs of the successive
  iterations. The list is what the window system has answered so far: when it ends
  with the close flag still clear the loop has not returned, and the result is \<open>None\<close>.
\<close>

fun render_loop :: "(cfloat \<Rightarrow> cfloat) \<Rightarrow> loop_state \<Rightarrow> frame_input list \<Rightarrow> loop_state option" where
  "render_loop sinf s [] = (if shouldClose s then Some s else None)"
| "render_loop sinf s (f # fs) =
     (if shouldClose s then Some s else render_loop sinf (frame_step sinf f s) fs)"

text \<open>The states at the end of the iterations that the loop executes.\<close>

fun loop_states :: "(cfloat \<Rightarrow> cfloat) \<Rightarrow> loop_state \<Rightarrow> frame_input list \<Rightarrow> loop_state list" where
  "loop_states sinf s [] = []"
| "loop_states sinf s (f # fs) =
     (if shouldClose s then []
      else frame_step sinf f s # loop_states sinf (frame_step sinf f s) fs)"

section \<open>Start-up and exit\<close>

text \<open>
  The answers of the platform during initialisation: whether \<^verbatim>\<open>glfwInit\<close>,
  \<^verbatim>\<open>glfwCreateWindow\<close> and \<^verbatim>\<open>glewInit\<close> succeed, and for the two shaders and the program
  the info log of a failed compilation or link (\<open>None\<close> when it succeeded).
\<close>

record startup =
  glfwInit_ok :: bool
  window_ok :: bool
  glewInit_ok :: bool
  vertex_log :: "string option"
  fragment_log :: "string option"
  link_log :: "string option"

text \<open>
  What \<^verbatim>\<open>compileShader\<close> and \<^verbatim>\<open>createShaderProgram\<close> write to standard error. The info
  log is read into \<^verbatim>\<open>char infoLog[512]\<close> with a buffer size of \<open>512\<close>: at most \<open>511\<close> of its
  characters, followed by the terminating zero.
\<close>

definition compileShader_err :: "string option \<Rightarrow> string list" where
  "compileShader_err status =
     (case status of None \<Rightarrow> []
      | Some infoLog \<Rightarrow> [''ERROR::SHADER::COMPILATION_FAILED'' @ [CHR 0x0A] @ take 511 infoLog])"

definition createShaderProgram_err :: "startup \<Rightarrow> string list" where
  "createShaderProgram_err st =
     compileShader_err (vertex_log st) @ compileShader_err (fragment_log st)
     @ (case link_log st of None \<Rightarrow> []
        | Some infoLog \<Rightarrow> [''ERROR::SHADER::PROGRAM::LINKING_FAILED'' @ [CHR 0x0A] @ take 511 infoLog])"

text \<open>
  \<^verbatim>\<open>main\<close>: the lines written to standard error and the value returned, or \<open>None\<close>
  while the render loop is still running.
\<close>

definition main :: "(cfloat \<Rightarrow> cfloat) \<Rightarrow> startup \<Rightarrow> frame_input list \<Rightarrow> (string list \<times> int) option" where
  "main sinf st fs =
     (if \<not> glfwInit_ok st then Some ([''Failed to initialize GLFW''], - 1)
      else if \<not> window_ok st then Some ([''Failed to create GLFW window''], - 1)
      else if \<not> glewInit_ok st then Some ([''Failed to initialize GLEW''], - 1)
      else case render_loop sinf initial_state fs of
             None \<Rightarrow> None
           | Some s \<Rightarrow> Some (createShaderProgram_err st, 0))"

section \<open>Auxiliary notions of the properties\<close>

text \<open>
  The clock of the window system never runs backwards and stays within the range of
  \<^verbatim>\<open>float\<close>: \<open>clock_ok t fs\<close> says so of the frame times of \<open>fs\<close>, starting from time \<open>t\<close>.
\<close>

fun clock_ok :: "cfloat \<Rightarrow> frame_input list \<Rightarrow> bool" where
  "clock_ok t [] = True"
| "clock_ok t (f # fs) =
     (is_finite (to_float (glfwGetTime f)) \<and> fle t (to_float (glfwGetTime f))
      \<and> clock_ok (to_float (glfwGetTime f)) fs)"

text \<open>
  What the properties need of \<^verbatim>\<open>sinf\<close>: it is not negative between \<open>0\<close> and
  \<open>3.1415926\<close>, a bound below \<open>\<pi>\<close>.
\<close>

definition sinf_nonneg :: "(cfloat \<Rightarrow> cfloat) \<Rightarrow> bool" where
  "sinf_nonneg sinf = (\<forall>x. 0 \<le> x \<and> x \<le> 31415926 / 10 ^ 7 \<longrightarrow> fle (Fin 0) (sinf (Fin x)))"

text \<open>
  A stand-in for \<^verbatim>\<open>sinf\<close> to run the model on: Bhaskara's rational approximation of the
  sine between \<open>0\<close> and \<open>\<pi>\<close>, rounded to \<^verbatim>\<open>float\<close>.
\<close>

fun sinf_approx :: "cfloat \<Rightarrow> cfloat" where
  "sinf_approx (Fin x) =
     rnd binary32 (16 * x * (355 / 113 - x) / (5 * (355 / 113) ^ 2 - 4 * x * (355 / 113 - x)))"
| "sinf_approx a = NaN"

text \<open>
  What the jump curve needs of \<^verbatim>\<open>sinf\<close>: between \<open>0\<close> and \<open>3.1415926\<close> it returns a number
  within \<open>2\<^sup>-\<^sup>2\<^sup>3\<close> of the sine of its argument (a library that rounds the sine correctly
  is within \<open>2\<^sup>-\<^sup>2\<^sup>5\<close> there).
\<close>

definition sinf_accurate :: "(cfloat \<Rightarrow> cfloat) \<Rightarrow> bool" where
  "sinf_accurate sinf =
     (\<forall>x. 0 \<le> x \<and> x \<le> 31415926 / 10 ^ 7 \<longrightarrow>
        (\<exists>r. sinf (Fin x) = Fin r \<and> \<bar>real_of_rat r - sin (real_of_rat x)\<bar> \<le> 1 / 2 ^ 23))"

text \<open>
  A second stand-in for \<^verbatim>\<open>sinf\<close>, which meets this bound: the Taylor polynomial of the sine
  of degree \<open>19\<close>, rounded to \<^verbatim>\<open>float\<close>.
\<close>

definition sin_poly :: "rat \<Rightarrow> rat" where
  "sin_poly x =
     x - x ^ 3 / 6 + x ^ 5 / 120 - x ^ 7 / 5040 + x ^ 9 / 362880 - x ^ 11 / 39916800
       + x ^ 13 / 6227020800 - x ^ 15 / 1307674368000 + x ^ 17 / 355687428096000
       - x ^ 19 / 121645100408832000"

fun sinf_taylor :: "cfloat \<Rightarrow> cfloat" where
  "sinf_taylor (Fin x) = rnd binary32 (sin_poly x)"
| "sinf_taylor a = NaN"

text \<open>
  The jump step alone over successive frame times, and the number of its steps that
  end the jump (the jump flag is set before the step and clear after it).
\<close>

fun jump_steps :: "(cfloat \<Rightarrow> cfloat) \<Rightarrow> loop_state \<Rightarrow> cfloat list \<Rightarrow> loop_state" where
  "jump_steps sinf s [] = s"
| "jump_steps sinf s (t # ts) = jump_steps sinf (jump_step sinf t s) ts"

fun jump_endings :: "(cfloat \<Rightarrow> cfloat) \<Rightarrow> loop_state \<Rightarrow> cfloat list \<Rightarrow> nat" where
  "jump_endings sinf s [] = 0"
| "jump_endings sinf s (t # ts) =
     (if isJumping s \<and> \<not> isJumping (jump_step sinf t s) then 1 else 0)
     + jump_endings sinf (jump_step sinf t s) ts"

text \<open>
  The invariant of the motion state: the jump offset is not negative and at most one of
  the two flags is set.
\<close>

definition motion_ok :: "loop_state \<Rightarrow> bool" where
  "motion_ok s = (fle (lit_f 0) (jumpHeight s) \<and> \<not> (isJumping s \<and> isFalling s))"

text \<open>
  What the loop maintains besides: the last frame time is a number, and a jump under
  way started at a time that is a number and not after the last frame.
\<close>

definition loop_inv :: "loop_state \<Rightarrow> bool" where
  "loop_inv s =
     (motion_ok s \<and> is_finite (lastFrame s)
      \<and> (isJumping s \<longrightarrow> is_finite (jumpStartTime s) \<and> fle (jumpStartTime s) (lastFrame s)))"

text \<open>
  \<open>lands_after s n\<close>: iterating the fall step from \<open>s\<close>, the offset is exactly \<open>0\<close> and
  the falling flag is clear after \<open>n\<close> steps, each of these steps lowers the offset, and
  the offset is never negative.
\<close>

definition lands_after :: "loop_state \<Rightarrow> nat \<Rightarrow> bool" where
  "lands_after s n =
     (jumpHeight ((fall_step ^^ n) s) = Fin 0 \<and> \<not> isFalling ((fall_step ^^ n) s)
      \<and> (\<forall>k < n. flt (jumpHeight ((fall_step ^^ Suc k) s)) (jumpHeight ((fall_step ^^ k) s)))
      \<and> (\<forall>k. fle (Fin 0) (jumpHeight ((fall_step ^^ k) s))))"

text \<open>Inputs to run the model on: frames with no key, with space, with a close request.\<close>

definition idle_frame :: "cfloat \<Rightarrow> frame_input" where
  "idle_frame t =
     \<lparr>glfwGetTime = t, key_escape = False, key_left = False, key_right = False,
      key_space = False, close_request = False\<rparr>"

definition jump_frame :: "cfloat \<Rightarrow> frame_input" where
  "jump_frame t = (idle_frame t)\<lparr>key_space := True\<rparr>"

definition close_frame :: "cfloat \<Rightarrow> frame_input" where
  "close_frame t = (idle_frame t)\<lparr>close_request := True\<rparr>"

text \<open>The state of a jump under way that started at half a second.\<close>

definition jump_start :: loop_state where
  "jump_start = initial_state\<lparr>isJumping := True, jumpStartTime := Fin (1 / 2)\<rparr>"

text \<open>A jump started at half a second, seen again at one second and at 1.75 seconds.\<close>

definition demo_frames :: "frame_input list" where
  "demo_frames = [jump_frame (Fin (1 / 2)), idle_frame (Fin 1), idle_frame (Fin (7 / 4))]"

section \<open>Facts about comparisons\<close>

lemma fgt_flt: "fgt a b = flt b a"
  by (cases a; cases b) (auto simp: fgt_def flt_def)

lemma flt_asym: "flt a b \<Longrightarrow> \<not> flt b a"
  by (cases a; cases b) (auto simp: flt_def split: if_splits)

lemma fle_iff_not_flt: "\<not> is_nan a \<Longrightarrow> \<not> is_nan b \<Longrightarrow> fle a b = (\<not> flt b a)"
  by (cases a; cases b) (auto simp: fle_def flt_def)

lemma feq_imp_not_flt: "feq a b \<Longrightarrow> \<not> flt a b \<and> \<not> flt b a"
  by (cases a; cases b) (auto simp: feq_def flt_def split: if_splits)

lemma fle_imp_not_flt: "fle a b \<Longrightarrow> \<not> flt b a"
  by (cases a; cases b) (auto simp: fle_def flt_def split: if_splits)

lemma fle_Fin [simp]: "fle (Fin a) (Fin b) = (a \<le> b)"
  by (auto simp: fle_def)

lemma flt_Fin [simp]: "flt (Fin a) (Fin b) = (a < b)"
  by (auto simp: flt_def)

lemma fle_zero_cases:
  assumes "fle (Fin 0) x"
  obtains "x = PInf" | r where "x = Fin r" "0 \<le> r"
  using assms by (cases x) (auto simp: fle_def split: if_splits)

lemma not_fle_zero:
  assumes "\<not> fle x (Fin 0)" "x \<noteq> NaN"
  shows "fle (Fin 0) x"
  using assms by (cases x) (auto simp: fle_def split: if_splits)

lemma fle_trans: "fle a b \<Longrightarrow> fle b c \<Longrightarrow> fle a c"
  by (cases a; cases b; cases c) (auto simp: fle_def split: if_splits)

lemma fle_refl_finite: "is_finite a \<Longrightarrow> fle a a"
  by (cases a) simp_all

section \<open>Facts about rounding\<close>

subsection \<open>Powers of two and the binade of a rational\<close>

lemma two_powi_pos [simp]: "0 < (2::rat) powi e"
  by simp

lemma two_powi_nat: "0 \<le> e \<Longrightarrow> (2::rat) powi e = 2 ^ nat e"
  by (simp add: power_int_def)

lemma two_powi_le_iff: "(2::rat) powi a \<le> 2 powi b \<longleftrightarrow> a \<le> b"
proof
  assume "(2::rat) powi a \<le> 2 powi b"
  show "a \<le> b"
  proof (rule ccontr)
    assume "\<not> a \<le> b"
    then have "b < a" by simp
    then have "(2::rat) powi b < 2 powi a"
      by (intro power_int_strict_increasing) auto
    with \<open>(2::rat) powi a \<le> 2 powi b\<close> show False by simp
  qed
next
  assume "a \<le> b"
  then show "(2::rat) powi a \<le> 2 powi b"
    by (intro power_int_increasing) auto
qed

lemma two_powi_less_iff: "(2::rat) powi a < 2 powi b \<longleftrightarrow> a < b"
  using two_powi_le_iff [of b a] by (auto simp: not_le [symmetric])

lemma ilog2_bounds:
  assumes "0 < q"
  shows "2 powi (ilog2 q) \<le> q \<and> q < 2 powi (ilog2 q + 1)"
proof (cases "1 \<le> q")
  case True
  define n where "n = \<lfloor>q\<rfloor>"
  have n1: "1 \<le> n" using True by (simp add: n_def le_floor_iff)
  then have n0: "0 < n" by simp
  from bitlen_bounds [OF n0] have lo: "2 ^ nat (bitlen n - 1) \<le> n" and hi: "n < 2 ^ nat (bitlen n)"
    by simp_all
  have b1: "1 \<le> bitlen n"
    using n0 bitlen_eq_zero_iff [of n] bitlen_nonneg [of n] by linarith
  have e: "ilog2 q = bitlen n - 1" using True by (simp add: ilog2_def n_def)
  have "(2::rat) powi (bitlen n - 1) = of_int (2 ^ nat (bitlen n - 1))"
    using b1 by (simp add: two_powi_nat)
  also have "\<dots> \<le> of_int n" using lo by (simp only: of_int_le_iff)
  also have "\<dots> \<le> q" by (simp add: n_def)
  finally have A: "2 powi (ilog2 q) \<le> q" by (simp add: e)
  have "q < of_int (n + 1)" using floor_correct [of q] by (simp add: n_def)
  also have "\<dots> \<le> of_int (2 ^ nat (bitlen n))" using hi by (simp only: of_int_le_iff)
  also have "\<dots> = (2::rat) powi (bitlen n)"
    using b1 by (simp add: two_powi_nat)
  finally have B: "q < 2 powi (ilog2 q + 1)" by (simp add: e)
  from A B show ?thesis ..
next
  case False
  then have q1: "q < 1" by simp
  define y where "y = 1 / q"
  define n where "n = \<lceil>y\<rceil> - 1"
  have y1: "1 < y" using assms q1 by (simp add: y_def)
  have ny: "of_int n < y" using ceiling_correct [of y] by (simp add: n_def)
  have yn: "y \<le> of_int (n + 1)" by (simp add: n_def)
  have n1: "1 \<le> n" using y1 by (simp add: n_def less_ceiling_iff)
  then have n0: "0 < n" by simp
  from bitlen_bounds [OF n0] have lo: "2 ^ nat (bitlen n - 1) \<le> n" and hi: "n < 2 ^ nat (bitlen n)"
    by simp_all
  have b1: "1 \<le> bitlen n"
    using n0 bitlen_eq_zero_iff [of n] bitlen_nonneg [of n] by linarith
  have e: "ilog2 q = - bitlen n" using False by (simp add: ilog2_def n_def y_def)
  from hi have "n + 1 \<le> 2 ^ nat (bitlen n)" by simp
  then have "(of_int (n + 1) :: rat) \<le> of_int (2 ^ nat (bitlen n))" by (simp only: of_int_le_iff)
  with yn have "y \<le> of_int (2 ^ nat (bitlen n))" by (rule order_trans)
  also have "\<dots> = (2::rat) powi (bitlen n)" using b1 by (simp add: two_powi_nat)
  finally have "y \<le> 2 powi (bitlen n)" .
  then have "1 / 2 powi (bitlen n) \<le> (1::rat) / y"
    using y1 by (simp add: frac_le)
  then have A: "2 powi (ilog2 q) \<le> q"
    using assms by (simp add: e y_def power_int_minus divide_simps)
  have "(2::rat) powi (bitlen n - 1) = of_int (2 ^ nat (bitlen n - 1))"
    using b1 by (simp add: two_powi_nat)
  also have "\<dots> \<le> of_int n" using lo by (simp only: of_int_le_iff)
  also have "\<dots> < y" by (rule ny)
  finally have "(2::rat) powi (bitlen n - 1) < y" .
  then have "1 / y < 1 / (2::rat) powi (bitlen n - 1)"
    by (simp add: frac_less2)
  moreover have "1 / (2::rat) powi (bitlen n - 1) = 2 powi (- bitlen n + 1)"
    using power_int_minus [of "2::rat" "bitlen n - 1"] by (simp add: inverse_eq_divide)
  ultimately have B: "q < 2 powi (ilog2 q + 1)"
    using assms by (simp add: e y_def)
  from A B show ?thesis ..
qed

lemma ilog2_unique:
  assumes "0 < q" "2 powi e \<le> q" "q < 2 powi (e + 1)"
  shows "ilog2 q = e"
proof -
  from ilog2_bounds [OF assms(1)] have a: "2 powi (ilog2 q) \<le> q" and b: "q < 2 powi (ilog2 q + 1)"
    by simp_all
  from a assms(3) have "(2::rat) powi (ilog2 q) < 2 powi (e + 1)" by simp
  then have "ilog2 q < e + 1" by (simp only: two_powi_less_iff)
  moreover from assms(2) b have "(2::rat) powi e < 2 powi (ilog2 q + 1)" by simp
  then have "e < ilog2 q + 1" by (simp only: two_powi_less_iff)
  ultimately show ?thesis by simp
qed

subsection \<open>Rounding to an integer, ties to even\<close>

lemma round_even_bounds: "of_int (round_even x) - 1 / 2 \<le> x \<and> x \<le> of_int (round_even x) + 1 / 2"
proof -
  have "of_int \<lfloor>x\<rfloor> \<le> x" "x < of_int \<lfloor>x\<rfloor> + 1"
    using floor_correct [of x] by simp_all
  then show ?thesis
    unfolding round_even_def Let_def by (simp only: split: if_splits) (safe; simp; linarith?)
qed

lemma round_even_of_int [simp]: "round_even (of_int n) = n"
  by (simp add: round_even_def)

lemma round_even_ge: "of_int n \<le> x \<Longrightarrow> n \<le> round_even x"
proof -
  assume "of_int n \<le> x"
  then have "n \<le> \<lfloor>x\<rfloor>" by (simp add: le_floor_iff)
  then show ?thesis by (auto simp: round_even_def Let_def)
qed

lemma round_even_le: "x \<le> of_int n \<Longrightarrow> round_even x \<le> n"
proof -
  assume a: "x \<le> of_int n"
  show ?thesis
  proof (cases "x = of_int n")
    case True
    then show ?thesis by simp
  next
    case False
    with a have "x < of_int n" by simp
    then have "\<lfloor>x\<rfloor> < n" by (simp add: floor_less_iff)
    then show ?thesis by (auto simp: round_even_def Let_def)
  qed
qed

lemma round_even_eqI:
  assumes "\<bar>x - of_int m\<bar> < 1 / 2 \<or> (\<bar>x - of_int m\<bar> = 1 / 2 \<and> even m)"
  shows "round_even x = m"
proof -
  consider "of_int m \<le> x" "x < of_int m + 1 / 2"
    | "x < of_int m" "of_int m - 1 / 2 < x"
    | "x = of_int m + 1 / 2" "even m"
    | "x = of_int m - 1 / 2" "even m"
    using assms by (auto simp: abs_if split: if_splits) 
  then show ?thesis
  proof cases
    case 1
    then have "\<lfloor>x\<rfloor> = m" by (intro floor_unique) simp_all
    with 1 show ?thesis by (simp add: round_even_def Let_def)
  next
    case 2
    then have "\<lfloor>x\<rfloor> = m - 1" by (intro floor_unique) simp_all
    with 2 show ?thesis by (simp add: round_even_def Let_def)
  next
    case 3
    then have "\<lfloor>x\<rfloor> = m" by (intro floor_unique) simp_all
    with 3 show ?thesis by (simp add: round_even_def Let_def)
  next
    case 4
    then have "\<lfloor>x\<rfloor> = m - 1" by (intro floor_unique) simp_all
    with 4 show ?thesis by (simp add: round_even_def Let_def)
  qed
qed

subsection \<open>Rounding to a format\<close>

lemma fmt_fields [simp]:
  "prec binary32 = 24" "emin binary32 = - 126" "emax binary32 = 127"
  "prec binary64 = 53" "emin binary64 = - 1022" "emax binary64 = 1023"
  by (simp_all add: binary32_def binary64_def)

lemma ulp_of_pos [simp]: "0 < ulp_of fmt q"
  by (simp add: ulp_of_def)

lemma ulp_of_nonneg [simp]: "0 \<le> ulp_of fmt q"
  by (simp add: ulp_of_def)

lemma rnd_mag_nonneg: "0 \<le> rnd_mag fmt q"
proof -
  have "0 \<le> \<bar>q\<bar> / ulp_of fmt q" by simp
  then have "0 \<le> round_even (\<bar>q\<bar> / ulp_of fmt q)"
    using round_even_ge [of 0] by simp
  then show ?thesis by (simp add: rnd_mag_def)
qed

lemma rnd_mag_err: "\<bar>rnd_mag fmt q - \<bar>q\<bar>\<bar> \<le> ulp_of fmt q / 2"
proof -
  define u where "u = ulp_of fmt q"
  define m where "m = round_even (\<bar>q\<bar> / u)"
  have u: "0 < u" by (simp add: u_def)
  from round_even_bounds [of "\<bar>q\<bar> / u"]
  have "of_int m - 1 / 2 \<le> \<bar>q\<bar> / u" "\<bar>q\<bar> / u \<le> of_int m + 1 / 2"
    by (simp_all add: m_def)
  with u have "(of_int m - 1 / 2) * u \<le> \<bar>q\<bar>" "\<bar>q\<bar> \<le> (of_int m + 1 / 2) * u"
    by (simp_all add: pos_le_divide_eq pos_divide_le_eq)
  then have "of_int m * u - u / 2 \<le> \<bar>q\<bar>" "\<bar>q\<bar> \<le> of_int m * u + u / 2"
    by (simp_all add: algebra_simps)
  then have "\<bar>of_int m * u - \<bar>q\<bar>\<bar> \<le> u / 2"
    by (simp only: abs_le_iff) linarith
  then show ?thesis by (simp add: rnd_mag_def m_def u_def)
qed

lemma ulp_of_le:
  assumes "q \<noteq> 0" "\<bar>q\<bar> < 2 powi k" "emin fmt < k"
  shows "ulp_of fmt q \<le> 2 powi (k - int (prec fmt))"
proof -
  from assms(1) have "0 < \<bar>q\<bar>" by simp
  from ilog2_bounds [OF this] assms(2) have "(2::rat) powi (ilog2 \<bar>q\<bar>) < 2 powi k" by simp
  then have "ilog2 \<bar>q\<bar> < k" by (simp only: two_powi_less_iff)
  with assms(3) have "max (ilog2 \<bar>q\<bar>) (emin fmt) - int (prec fmt) + 1 \<le> k - int (prec fmt)"
    by simp
  then show ?thesis
    unfolding ulp_of_def by (simp only: two_powi_le_iff)
qed

lemma rnd_zero [simp]: "rnd fmt 0 = Fin 0"
  by (simp add: rnd_def)

lemma rnd_not_nan: "rnd fmt q \<noteq> NaN"
  by (simp add: rnd_def)

text \<open>
  A value below \<open>2 ^ k\<close> in magnitude rounds to a number, within half a unit in the last
  place of the binade below \<open>2 ^ k\<close>, and keeps its sign.
\<close>

lemma rnd_near:
  assumes "\<bar>q\<bar> < 2 powi k" "emin fmt < k" "k \<le> emax fmt"
  shows "\<exists>r. rnd fmt q = Fin r \<and> \<bar>r - q\<bar> \<le> 2 powi (k - int (prec fmt)) / 2
            \<and> (0 \<le> q \<longrightarrow> 0 \<le> r) \<and> (q \<le> 0 \<longrightarrow> r \<le> 0)"
proof (cases "q = 0")
  case True
  then show ?thesis by (simp add: rnd_def)
next
  case False
  have u: "ulp_of fmt q \<le> 2 powi (k - int (prec fmt))"
    using False assms(1,2) by (rule ulp_of_le)
  have e: "\<bar>rnd_mag fmt q - \<bar>q\<bar>\<bar> \<le> 2 powi (k - int (prec fmt)) / 2"
    using rnd_mag_err [of fmt q] u by simp
  have "(2::rat) powi (k - int (prec fmt)) \<le> 2 powi k"
    by (simp only: two_powi_le_iff)
  moreover from e have "rnd_mag fmt q \<le> \<bar>q\<bar> + 2 powi (k - int (prec fmt)) / 2"
    by (simp only: abs_diff_le_iff)
  ultimately have "rnd_mag fmt q < 2 powi k + 2 powi k / 2" using assms(1) by linarith
  also have "\<dots> \<le> 2 powi k + 2 powi k" by simp
  also have "\<dots> = (2::rat) powi (k + 1)" by (simp add: power_int_add)
  also have "\<dots> \<le> 2 powi (emax fmt + 1)"
    using assms(3) by (simp only: two_powi_le_iff)
  finally have fin: "rnd fmt q = Fin (sgn q * rnd_mag fmt q)"
    using False by (simp add: rnd_def)
  have "\<bar>sgn q * rnd_mag fmt q - q\<bar> = \<bar>rnd_mag fmt q - \<bar>q\<bar>\<bar>"
    using False by (cases "0 < q") (simp_all add: abs_minus_commute)
  with e have "\<bar>sgn q * rnd_mag fmt q - q\<bar> \<le> 2 powi (k - int (prec fmt)) / 2" by simp
  moreover have "0 \<le> q \<longrightarrow> 0 \<le> sgn q * rnd_mag fmt q"
    using False rnd_mag_nonneg [of fmt q] by (cases "0 < q") simp_all
  moreover have "q \<le> 0 \<longrightarrow> sgn q * rnd_mag fmt q \<le> 0"
    using False rnd_mag_nonneg [of fmt q] by (cases "0 < q") simp_all
  ultimately show ?thesis using fin by simp
qed

lemma rnd_nonneg: "0 \<le> q \<Longrightarrow> fle (Fin 0) (rnd fmt q)"
  using rnd_mag_nonneg [of fmt q] by (auto simp: rnd_def fle_def)

lemma rnd_nonpos: "q \<le> 0 \<Longrightarrow> fle (rnd fmt q) (Fin 0)"
  using rnd_mag_nonneg [of fmt q]
  by (auto simp: rnd_def fle_def sgn_if mult_le_0_iff)

lemma rnd_pos_Fin:
  assumes "0 < q" "rnd fmt q = Fin r"
  shows "r = rnd_mag fmt q"
  using assms by (auto simp: rnd_def split: if_splits)

text \<open>
  A certificate for the rounding of a given value: its binade \<open>e0\<close> and the integer \<open>m\<close>
  nearest to its quotient by the unit in the last place.
\<close>

lemma rnd_eqI:
  assumes "q \<noteq> 0" "2 powi e0 \<le> \<bar>q\<bar>" "\<bar>q\<bar> < 2 powi (e0 + 1)"
    and "u = 2 powi (max e0 (emin fmt) - int (prec fmt) + 1)"
    and "\<bar>\<bar>q\<bar> / u - of_int m\<bar> < 1 / 2 \<or> (\<bar>\<bar>q\<bar> / u - of_int m\<bar> = 1 / 2 \<and> even m)"
    and "of_int m * u < 2 powi (emax fmt + 1)"
    and "r = sgn q * (of_int m * u)"
  shows "rnd fmt q = Fin r"
proof -
  from assms(1) have "0 < \<bar>q\<bar>" by simp
  then have "ilog2 \<bar>q\<bar> = e0" using assms(2,3) by (rule ilog2_unique)
  then have "ulp_of fmt q = u" by (simp add: ulp_of_def assms(4))
  then have "rnd_mag fmt q = of_int m * u"
    using round_even_eqI [OF assms(5)] by (simp add: rnd_mag_def)
  then show ?thesis using assms(1,6,7) by (simp add: rnd_def)
qed

text \<open>The largest \<^verbatim>\<open>float\<close> below \<open>1\<close> is \<open>1 - 2\<^sup>-\<^sup>2\<^sup>4\<close>.\<close>

lemma rnd32_below_one:
  assumes "rnd binary32 q = Fin r" "r < 1"
  shows "r \<le> 1 - 1 / 2 ^ 24"
proof (cases "0 < q")
  case False
  then have "fle (rnd binary32 q) (Fin 0)" by (intro rnd_nonpos) simp
  with assms(1) have "r \<le> 0" by (simp add: fle_def split: if_splits)
  then show ?thesis by simp
next
  case True
  define e0 where "e0 = ilog2 \<bar>q\<bar>"
  define e where "e = max e0 (- 126)"
  define u :: rat where "u = 2 powi (e - 23)"
  define m where "m = round_even (\<bar>q\<bar> / u)"
  have u: "ulp_of binary32 q = u" by (simp add: ulp_of_def u_def e_def e0_def)
  have upos: "0 < u" by (simp add: u_def)
  have r: "r = of_int m * u"
    using rnd_pos_Fin [OF True assms(1)] by (simp add: rnd_mag_def u m_def)
  from True have "0 < \<bar>q\<bar>" by simp
  from ilog2_bounds [OF this] have lo: "2 powi e0 \<le> \<bar>q\<bar>" and hi: "\<bar>q\<bar> < 2 powi (e0 + 1)"
    by (simp_all add: e0_def)
  have e0neg: "e0 < 0"
  proof (rule ccontr)
    assume "\<not> e0 < 0"
    then have e0: "0 \<le> e0" by simp
    then have ee: "e = e0" by (simp add: e_def)
    have "(2::rat) powi e0 / u = 2 powi (e0 - (e0 - 23))"
      unfolding u_def ee by (rule power_int_diff [symmetric]) simp
    then have "(2::rat) powi e0 / u = of_int (2 ^ 23)" by simp
    moreover have "2 powi e0 / u \<le> \<bar>q\<bar> / u"
      using lo upos by (simp add: divide_right_mono)
    ultimately have "of_int (2 ^ 23) \<le> \<bar>q\<bar> / u" by simp
    then have "2 ^ 23 \<le> m" unfolding m_def by (rule round_even_ge)
    then have "of_int (2 ^ 23) * u \<le> of_int m * u"
      using upos by (simp only: mult_le_cancel_right_pos of_int_le_iff)
    moreover have "of_int (2 ^ 23) * u = (2::rat) powi e0"
      using \<open>(2::rat) powi e0 / u = of_int (2 ^ 23)\<close> upos by (simp add: field_simps)
    moreover have "(1::rat) \<le> 2 powi e0"
      using e0 by simp
    ultimately show False using assms(2) r by simp
  qed
  show ?thesis
  proof (cases "e = - 1")
    case True
    then have u24: "u = 1 / 2 ^ 24" by (simp add: u_def)
    from assms(2) have "of_int m < (of_int (2 ^ 24) :: rat)"
      by (simp add: r u24)
    then have "m < 2 ^ 24" by (simp only: of_int_less_iff)
    then have "m \<le> 2 ^ 24 - 1" by simp
    then have "(of_int m :: rat) \<le> of_int (2 ^ 24 - 1)" by (simp only: of_int_le_iff)
    then show ?thesis by (simp add: r u24)
  next
    case False
    with e0neg have e2: "e \<le> - 2" by (simp add: e_def)
    have "e0 \<le> e" by (simp add: e_def)
    then have "(2::rat) powi (e0 + 1) \<le> 2 powi (e + 1)"
      by (simp only: two_powi_le_iff)
    with hi have "\<bar>q\<bar> < 2 powi (e + 1)" by simp
    then have "\<bar>q\<bar> / u < 2 powi (e + 1) / u"
      using upos by (simp add: divide_strict_right_mono)
    moreover have "(2::rat) powi (e + 1) / u = 2 powi ((e + 1) - (e - 23))"
      unfolding u_def by (rule power_int_diff [symmetric]) simp
    then have p24: "(2::rat) powi (e + 1) / u = of_int (2 ^ 24)" by simp
    ultimately have "\<bar>q\<bar> / u \<le> of_int (2 ^ 24)" by simp
    then have "m \<le> 2 ^ 24" unfolding m_def by (rule round_even_le)
    then have "of_int m * u \<le> of_int (2 ^ 24) * u"
      using upos by (simp only: mult_le_cancel_right_pos of_int_le_iff)
    moreover have "of_int (2 ^ 24) * u = (2::rat) powi (e + 1)"
      using p24 upos by (simp add: field_simps)
    moreover have "(2::rat) powi (e + 1) \<le> 2 powi (- 1)"
      using e2 by (simp only: two_powi_le_iff)
    ultimately have "r \<le> 1 / 2" by (simp add: r)
    then show ?thesis by simp
  qed
qed

subsection \<open>Rounding is monotone\<close>

lemma ilog2_mono:
  assumes "0 < a" "a \<le> b"
  shows "ilog2 a \<le> ilog2 b"
proof -
  from assms have b: "0 < b" by simp
  from ilog2_bounds [OF assms(1)] ilog2_bounds [OF b] assms(2)
  have "(2::rat) powi (ilog2 a) < 2 powi (ilog2 b + 1)" by linarith
  then have "ilog2 a < ilog2 b + 1" by (simp only: two_powi_less_iff)
  then show ?thesis by simp
qed

lemma round_even_mono:
  assumes "x \<le> y"
  shows "round_even x \<le> round_even y"
proof (cases "x \<le> of_int (round_even y)")
  case True
  then show ?thesis by (rule round_even_le)
next
  case False
  then have lo: "of_int (round_even y) < x" by simp
  from round_even_bounds [of y] have hi: "y \<le> of_int (round_even y) + 1 / 2" by simp
  show ?thesis
  proof (cases "x = y")
    case True
    then show ?thesis by simp
  next
    case False
    with assms have "x < y" by simp
    with hi have "x - of_int (round_even y) < 1 / 2" by linarith
    moreover from lo have "0 < x - of_int (round_even y)" by simp
    ultimately have "\<bar>x - of_int (round_even y)\<bar> < 1 / 2" by simp
    then have "round_even x = round_even y" by (intro round_even_eqI) simp
    then show ?thesis by simp
  qed
qed

lemma rnd_mag_abs: "rnd_mag fmt \<bar>q\<bar> = rnd_mag fmt q"
  by (simp add: rnd_mag_def ulp_of_def)

lemma rnd_mag_mono:
  assumes p: "0 < prec fmt" and a: "0 < a" and ab: "a \<le> b"
  shows "rnd_mag fmt a \<le> rnd_mag fmt b"
proof -
  from a ab have b: "0 < b" by simp
  define ea where "ea = max (ilog2 a) (emin fmt)"
  define eb where "eb = max (ilog2 b) (emin fmt)"
  define ua :: rat where "ua = 2 powi (ea - int (prec fmt) + 1)"
  define ub :: rat where "ub = 2 powi (eb - int (prec fmt) + 1)"
  have ua: "ulp_of fmt a = ua" using a by (simp add: ulp_of_def ua_def ea_def)
  have ub: "ulp_of fmt b = ub" using b by (simp add: ulp_of_def ub_def eb_def)
  have uapos: "0 < ua" and ubpos: "0 < ub" by (simp_all add: ua_def ub_def)
  have ma: "rnd_mag fmt a = of_int (round_even (a / ua)) * ua"
    using a by (simp add: rnd_mag_def ua)
  have mb: "rnd_mag fmt b = of_int (round_even (b / ub)) * ub"
    using b by (simp add: rnd_mag_def ub)
  have le: "ea \<le> eb"
    using ilog2_mono [OF a ab] by (simp add: ea_def eb_def)
  show ?thesis
  proof (cases "ea = eb")
    case True
    then have u: "ub = ua" by (simp add: ua_def ub_def)
    have "a / ua \<le> b / ua" using ab uapos by (simp add: divide_right_mono)
    then have "round_even (a / ua) \<le> round_even (b / ua)" by (rule round_even_mono)
    then have "(of_int (round_even (a / ua)) :: rat) \<le> of_int (round_even (b / ua))"
      by (simp only: of_int_le_iff)
    then show ?thesis unfolding ma mb u using uapos by (simp only: mult_le_cancel_right_pos)
  next
    case False
    with le have lt: "ea < eb" by simp
    then have eb': "eb = ilog2 b" by (auto simp: eb_def ea_def max_def split: if_splits)
    have "a < 2 powi (ilog2 a + 1)" using ilog2_bounds [OF a] by simp
    also have "\<dots> \<le> 2 powi (ea + 1)"
      by (simp only: two_powi_le_iff) (simp add: ea_def)
    finally have "a / ua < 2 powi (ea + 1) / ua"
      using uapos by (simp add: divide_strict_right_mono)
    moreover have "(2::rat) powi (ea + 1) / ua = 2 powi ((ea + 1) - (ea - int (prec fmt) + 1))"
      unfolding ua_def by (rule power_int_diff [symmetric]) simp
    then have top: "(2::rat) powi (ea + 1) / ua = of_int (2 ^ prec fmt)" by simp
    ultimately have "a / ua \<le> of_int (2 ^ prec fmt)" by simp
    then have "round_even (a / ua) \<le> 2 ^ prec fmt" by (rule round_even_le)
    then have "(of_int (round_even (a / ua)) :: rat) \<le> of_int (2 ^ prec fmt)"
      by (simp only: of_int_le_iff)
    then have "rnd_mag fmt a \<le> of_int (2 ^ prec fmt) * ua"
      unfolding ma using uapos by (simp only: mult_le_cancel_right_pos)
    moreover have "of_int (2 ^ prec fmt) * ua = (2::rat) powi (ea + 1)"
      using top uapos by (simp add: field_simps)
    ultimately have A: "rnd_mag fmt a \<le> 2 powi (ea + 1)" by simp
    have "(2::rat) powi eb \<le> b" using ilog2_bounds [OF b] by (simp add: eb')
    then have "2 powi eb / ub \<le> b / ub"
      using ubpos by (simp add: divide_right_mono)
    moreover have "(2::rat) powi eb / ub = 2 powi (eb - (eb - int (prec fmt) + 1))"
      unfolding ub_def by (rule power_int_diff [symmetric]) simp
    then have "(2::rat) powi eb / ub = 2 powi (int (prec fmt - 1))"
      using p by (simp add: of_nat_diff)
    then have bot: "(2::rat) powi eb / ub = of_int (2 ^ (prec fmt - 1))"
      by (simp only: power_int_of_nat) simp
    ultimately have "of_int (2 ^ (prec fmt - 1)) \<le> b / ub" by simp
    then have "2 ^ (prec fmt - 1) \<le> round_even (b / ub)" by (rule round_even_ge)
    then have "(of_int (2 ^ (prec fmt - 1)) :: rat) \<le> of_int (round_even (b / ub))"
      by (simp only: of_int_le_iff)
    then have "of_int (2 ^ (prec fmt - 1)) * ub \<le> rnd_mag fmt b"
      unfolding mb using ubpos by (simp only: mult_le_cancel_right_pos)
    moreover have "of_int (2 ^ (prec fmt - 1)) * ub = (2::rat) powi eb"
      using bot ubpos by (simp add: field_simps)
    ultimately have B: "2 powi eb \<le> rnd_mag fmt b" by simp
    have "(2::rat) powi (ea + 1) \<le> 2 powi eb"
      using lt by (simp only: two_powi_le_iff)
    with A B show ?thesis by linarith
  qed
qed

lemma rnd_mono:
  assumes p: "0 < prec fmt" and le: "q1 \<le> q2"
  shows "fle (rnd fmt q1) (rnd fmt q2)"
proof -
  consider "q1 \<le> 0" "0 \<le> q2" | "0 < q1" | "q2 < 0" by linarith
  then show ?thesis
  proof cases
    case 1
    from rnd_nonpos [OF 1(1)] rnd_nonneg [OF 1(2)] show ?thesis by (rule fle_trans)
  next
    case 2
    with le have q2: "0 < q2" by simp
    from rnd_mag_mono [OF p 2 le] show ?thesis
      using 2 q2 by (auto simp: rnd_def fle_def)
  next
    case 3
    with le have q1: "q1 < 0" by simp
    from 3 le have "\<bar>q2\<bar> \<le> \<bar>q1\<bar>" "0 < \<bar>q2\<bar>" by simp_all
    from rnd_mag_mono [OF p this(2) this(1)]
    have "rnd_mag fmt q2 \<le> rnd_mag fmt q1" by (simp only: rnd_mag_abs)
    then show ?thesis
      using 3 q1 by (auto simp: rnd_def fle_def)
  qed
qed

subsection \<open>The values of the literals and of some sums\<close>

lemma jumpSpeed_val: "jumpSpeed = Fin (13421773 / 2 ^ 27)"
  unfolding jumpSpeed_def lit_f_def
  by (rule rnd_eqI [where ?e0.0 = "- 4" and m = 13421773 and u = "1 / 2 ^ 27"]) simp_all

lemma M_PI_val: "M_PI = Fin (884279719003555 / 2 ^ 48)"
  unfolding M_PI_def lit_d_def
  by (rule rnd_eqI [where ?e0.0 = 1 and m = 7074237752028440 and u = "1 / 2 ^ 51"]) simp_all

lemma rnd32_1: "rnd binary32 (1) = Fin (1)"
  by (rule rnd_eqI [where ?e0.0 = "0" and m = 8388608 and u = "1 / 8388608"]) simp_all

lemma rnd32_2: "rnd binary32 (2) = Fin (2)"
  by (rule rnd_eqI [where ?e0.0 = "1" and m = 8388608 and u = "1 / 4194304"]) simp_all

lemma rnd32_3: "rnd binary32 (3) = Fin (3)"
  by (rule rnd_eqI [where ?e0.0 = "1" and m = 12582912 and u = "1 / 4194304"]) simp_all

lemma rnd32_5: "rnd binary32 (5) = Fin (5)"
  by (rule rnd_eqI [where ?e0.0 = "2" and m = 10485760 and u = "1 / 2097152"]) simp_all

lemma rnd32_6: "rnd binary32 (6) = Fin (6)"
  by (rule rnd_eqI [where ?e0.0 = "2" and m = 12582912 and u = "1 / 2097152"]) simp_all

lemma rnd32_half: "rnd binary32 (1 / 2) = Fin (1 / 2)"
  by (rule rnd_eqI [where ?e0.0 = "- 1" and m = 8388608 and u = "1 / 16777216"]) simp_all

lemma rnd32_5_4: "rnd binary32 (5 / 4) = Fin (5 / 4)"
  by (rule rnd_eqI [where ?e0.0 = "0" and m = 10485760 and u = "1 / 8388608"]) simp_all

lemma rnd32_7_4: "rnd binary32 (7 / 4) = Fin (7 / 4)"
  by (rule rnd_eqI [where ?e0.0 = "0" and m = 14680064 and u = "1 / 8388608"]) simp_all

lemma rnd32_3_2: "rnd binary32 (3 / 2) = Fin (3 / 2)"
  by (rule rnd_eqI [where ?e0.0 = "0" and m = 12582912 and u = "1 / 8388608"]) simp_all

lemma rnd32_16777216: "rnd binary32 (16777216) = Fin (16777216)"
  by (rule rnd_eqI [where ?e0.0 = "24" and m = 8388608 and u = "2"]) simp_all

lemma rnd32_stuck: "rnd binary32 (2251799800263475 / 134217728) = Fin (16777216)"
  by (rule rnd_eqI [where ?e0.0 = "23" and m = 16777216 and u = "1"]) simp_all

lemma rnd32_stuck_least: "rnd binary32 (281474996843315 / 134217728) = Fin (8388609 / 4)"
  by (rule rnd_eqI [where ?e0.0 = "21" and m = 8388609 and u = "1 / 4"]) simp_all

lemma rnd32_2097152_25: "rnd binary32 (8388609 / 4) = Fin (8388609 / 4)"
  by (rule rnd_eqI [where ?e0.0 = "21" and m = 8388609 and u = "1 / 4"]) simp_all

lemma rnd32_fall_0: "rnd binary32 (20132659 / 134217728) = Fin (5033165 / 33554432)"
  by (rule rnd_eqI [where ?e0.0 = "- 3" and m = 10066330 and u = "1 / 67108864"]) simp_all

lemma rnd32_fall_1: "rnd binary32 (6710887 / 134217728) = Fin (6710887 / 134217728)"
  by (rule rnd_eqI [where ?e0.0 = "- 5" and m = 13421774 and u = "1 / 268435456"]) simp_all

lemma rnd32_fall_2: "rnd binary32 (- (3355443 / 67108864)) = Fin (- (3355443 / 67108864))"
  by (rule rnd_eqI [where ?e0.0 = "- 5" and m = 13421772 and u = "1 / 268435456"]) simp_all

lemma rnd32_neg_tenth: "rnd binary32 (- (13421773 / 134217728)) = Fin (- (13421773 / 134217728))"
  by (rule rnd_eqI [where ?e0.0 = "- 4" and m = 13421773 and u = "1 / 134217728"]) simp_all

lemma lit_f_0: "lit_f 0 = Fin 0" by (simp add: lit_f_def rnd_def)

lemma lit_f_1: "lit_f 1 = Fin 1"
  by (simp add: lit_f_def rnd32_1)

lemma lit_f_2: "lit_f 2 = Fin 2"
  by (simp add: lit_f_def rnd32_2)

lemma lit_f_3: "lit_f 3 = Fin 3"
  by (simp add: lit_f_def rnd32_3)

lemma lit_f_5: "lit_f 5 = Fin 5"
  by (simp add: lit_f_def rnd32_5)

lemma lit_f_16777216: "lit_f 16777216 = Fin 16777216"
  by (simp add: lit_f_def rnd32_16777216)

lemma lit_f_half: "lit_f (5 / 10) = Fin (1 / 2)"
  by (simp add: lit_f_def rnd32_half)

lemma fall_from_zero: "fle (sub_f (Fin 0) jumpSpeed) (Fin 0)"
  by (simp add: jumpSpeed_val sub_f_def fsub_def rnd32_neg_tenth)

lemma rnd32_10: "rnd binary32 (10) = Fin (10)"
  by (rule rnd_eqI [where ?e0.0 = "3" and m = 10485760 and u = "1 / 1048576"]) simp_all

lemma rnd32_11: "rnd binary32 (11) = Fin (11)"
  by (rule rnd_eqI [where ?e0.0 = "3" and m = 11534336 and u = "1 / 1048576"]) simp_all

lemma rnd32_12: "rnd binary32 (12) = Fin (12)"
  by (rule rnd_eqI [where ?e0.0 = "3" and m = 12582912 and u = "1 / 1048576"]) simp_all

lemma rnd32_13: "rnd binary32 (13) = Fin (13)"
  by (rule rnd_eqI [where ?e0.0 = "3" and m = 13631488 and u = "1 / 1048576"]) simp_all

lemma rnd32_21_2: "rnd binary32 (21 / 2) = Fin (21 / 2)"
  by (rule rnd_eqI [where ?e0.0 = "3" and m = 11010048 and u = "1 / 1048576"]) simp_all

lemma rnd32_23_2: "rnd binary32 (23 / 2) = Fin (23 / 2)"
  by (rule rnd_eqI [where ?e0.0 = "3" and m = 12058624 and u = "1 / 1048576"]) simp_all

lemma rnd32_16777218: "rnd binary32 (16777218) = Fin (16777218)"
  by (rule rnd_eqI [where ?e0.0 = "24" and m = 8388609 and u = "2"]) simp_all

lemma rnd32_33554435_2: "rnd binary32 (33554435 / 2) = Fin (16777218)"
  by (rule rnd_eqI [where ?e0.0 = "24" and m = 8388609 and u = "2"]) simp_all

lemma rnd32_16777219: "rnd binary32 (16777219) = Fin (16777220)"
  by (rule rnd_eqI [where ?e0.0 = "24" and m = 8388610 and u = "2"]) simp_all

lemma rnd32_neg1: "rnd binary32 (- 1) = Fin (- 1)"
  by (rule rnd_eqI [where ?e0.0 = "0" and m = 8388608 and u = "1 / 8388608"]) simp_all

lemma rnd32_quarter: "rnd binary32 (1 / 4) = Fin (1 / 4)"
  by (rule rnd_eqI [where ?e0.0 = "- 2" and m = 8388608 and u = "1 / 33554432"]) simp_all

lemma rnd32_3_4: "rnd binary32 (3 / 4) = Fin (3 / 4)"
  by (rule rnd_eqI [where ?e0.0 = "- 1" and m = 12582912 and u = "1 / 16777216"]) simp_all

lemma rnd64_pi_quarter: "rnd binary64 (884279719003555 / 1125899906842624) = Fin (884279719003555 / 1125899906842624)"
  by (rule rnd_eqI [where ?e0.0 = "- 1" and m = 7074237752028440 and u = "1 / 9007199254740992"]) simp_all

lemma rnd32_pi_quarter: "rnd binary32 (884279719003555 / 1125899906842624) = Fin (13176795 / 16777216)"
  by (rule rnd_eqI [where ?e0.0 = "- 1" and m = 13176795 and u = "1 / 16777216"]) simp_all

lemma rnd32_sin_pi_quarter: "rnd binary32 (sin_poly (13176795 / 16777216)) = Fin (11863283 / 16777216)"
  by (rule rnd_eqI [where ?e0.0 = "- 1" and m = 11863283 and u = "1 / 16777216"]) (simp_all add: sin_poly_def power_divide)

lemma rnd64_pi_half: "rnd binary64 (884279719003555 / 562949953421312) = Fin (884279719003555 / 562949953421312)"
  by (rule rnd_eqI [where ?e0.0 = "0" and m = 7074237752028440 and u = "1 / 4503599627370496"]) simp_all

lemma rnd32_pi_half: "rnd binary32 (884279719003555 / 562949953421312) = Fin (13176795 / 8388608)"
  by (rule rnd_eqI [where ?e0.0 = "0" and m = 13176795 and u = "1 / 8388608"]) simp_all

lemma rnd32_sin_pi_half: "rnd binary32 (sin_poly (13176795 / 8388608)) = Fin (1)"
  by (rule rnd_eqI [where ?e0.0 = "- 1" and m = 16777216 and u = "1 / 16777216"]) (simp_all add: sin_poly_def power_divide)

lemma rnd64_pi_3_4: "rnd binary64 (2652839157010665 / 1125899906842624) = Fin (2652839157010665 / 1125899906842624)"
  by (rule rnd_eqI [where ?e0.0 = "1" and m = 5305678314021330 and u = "1 / 2251799813685248"]) simp_all

lemma rnd32_pi_3_4: "rnd binary32 (2652839157010665 / 1125899906842624) = Fin (2470649 / 1048576)"
  by (rule rnd_eqI [where ?e0.0 = "1" and m = 9882596 and u = "1 / 4194304"]) simp_all

lemma rnd32_sin_pi_3_4: "rnd binary32 (sin_poly (2470649 / 1048576)) = Fin (11863283 / 16777216)"
  by (rule rnd_eqI [where ?e0.0 = "- 1" and m = 11863283 and u = "1 / 16777216"]) (simp_all add: sin_poly_def power_divide)

lemma rnd32_offset_quarter: "rnd binary32 (11863283 / 33554432) = Fin (11863283 / 33554432)"
  by (rule rnd_eqI [where ?e0.0 = "- 2" and m = 11863283 and u = "1 / 33554432"]) simp_all

section \<open>The steps of the loop body, field by field\<close>

lemma time_step_fields [simp]:
  "translationX (time_step t s) = translationX s"
  "isJumping (time_step t s) = isJumping s"
  "isFalling (time_step t s) = isFalling s"
  "jumpHeight (time_step t s) = jumpHeight s"
  "jumpStartTime (time_step t s) = jumpStartTime s"
  "lastFrame (time_step t s) = t"
  "shouldClose (time_step t s) = shouldClose s"
  by (simp_all add: time_step_def)

lemma escape_step_fields [simp]:
  "translationX (escape_step f s) = translationX s"
  "isJumping (escape_step f s) = isJumping s"
  "isFalling (escape_step f s) = isFalling s"
  "jumpHeight (escape_step f s) = jumpHeight s"
  "jumpStartTime (escape_step f s) = jumpStartTime s"
  "lastFrame (escape_step f s) = lastFrame s"
  "shouldClose (escape_step f s) = (key_escape f \<or> shouldClose s)"
  by (simp_all add: escape_step_def)

lemma move_step_fields [simp]:
  "isJumping (move_step f s) = isJumping s"
  "isFalling (move_step f s) = isFalling s"
  "jumpHeight (move_step f s) = jumpHeight s"
  "jumpStartTime (move_step f s) = jumpStartTime s"
  "lastFrame (move_step f s) = lastFrame s"
  "shouldClose (move_step f s) = shouldClose s"
  by (simp_all add: move_step_def Let_def)

lemma space_step_fields [simp]:
  "translationX (space_step t f s) = translationX s"
  "isJumping (space_step t f s) = (key_space f \<or> isJumping s)"
  "isFalling (space_step t f s) = (isFalling s \<and> \<not> (key_space f \<and> \<not> isJumping s))"
  "jumpHeight (space_step t f s) = jumpHeight s"
  "jumpStartTime (space_step t f s) = (if key_space f \<and> \<not> isJumping s then t else jumpStartTime s)"
  "lastFrame (space_step t f s) = lastFrame s"
  "shouldClose (space_step t f s) = shouldClose s"
  by (auto simp add: space_step_def)

lemma jump_step_fields [simp]:
  "translationX (jump_step sinf t s) = translationX s"
  "jumpStartTime (jump_step sinf t s) = jumpStartTime s"
  "lastFrame (jump_step sinf t s) = lastFrame s"
  "shouldClose (jump_step sinf t s) = shouldClose s"
  by (simp_all add: jump_step_def)

lemma fall_step_fields [simp]:
  "translationX (fall_step s) = translationX s"
  "isJumping (fall_step s) = isJumping s"
  "jumpStartTime (fall_step s) = jumpStartTime s"
  "lastFrame (fall_step s) = lastFrame s"
  "shouldClose (fall_step s) = shouldClose s"
  by (simp_all add: fall_step_def)

lemma poll_step_fields [simp]:
  "translationX (poll_step f s) = translationX s"
  "isJumping (poll_step f s) = isJumping s"
  "isFalling (poll_step f s) = isFalling s"
  "jumpHeight (poll_step f s) = jumpHeight s"
  "jumpStartTime (poll_step f s) = jumpStartTime s"
  "lastFrame (poll_step f s) = lastFrame s"
  "shouldClose (poll_step f s) = (close_request f \<or> shouldClose s)"
  by (simp_all add: poll_step_def)

lemma frame_step_lastFrame [simp]: "lastFrame (frame_step sinf f s) = to_float (glfwGetTime f)"
  by (simp add: frame_step_def Let_def)

lemma frame_step_shouldClose [simp]:
  "shouldClose (frame_step sinf f s) = (key_escape f \<or> close_request f \<or> shouldClose s)"
  by (auto simp add: frame_step_def Let_def)

lemma frame_step_jumpStartTime:
  "jumpStartTime (frame_step sinf f s)
     = (if key_space f \<and> \<not> isJumping s then to_float (glfwGetTime f) else jumpStartTime s)"
  by (simp add: frame_step_def Let_def)

lemma frame_step_isJumping:
  "isJumping (frame_step sinf f s)
     = ((key_space f \<or> isJumping s)
        \<and> flt (div_f (sub_f (to_float (glfwGetTime f)) (jumpStartTime (frame_step sinf f s)))
                  jumpDuration) (lit_f 1))"
  by (simp add: frame_step_jumpStartTime) (simp add: frame_step_def Let_def jump_step_def jumpProgress_def)

lemma frame_step_jumpHeight_landed:
  "\<not> isJumping (frame_step sinf f s) \<Longrightarrow> key_space f \<or> isJumping s \<Longrightarrow>
   jumpHeight (frame_step sinf f s) = Fin 0"
  by (auto simp add: frame_step_def Let_def jump_step_def fall_step_def fall_from_zero lit_f_0
      split: if_splits)

lemma jumpProgress_jump_step [simp]: "jumpProgress t (jump_step sinf t' s) = jumpProgress t s"
  by (simp add: jumpProgress_def)

section \<open>The stand-in sine and a run of three frames\<close>

lemma sinf_approx_nonneg: "sinf_nonneg sinf_approx"
  unfolding sinf_nonneg_def
proof (intro allI impI)
  fix x :: rat
  assume x: "0 \<le> x \<and> x \<le> 31415926 / 10 ^ 7"
  define P :: rat where "P = 355 / 113"
  have px: "0 \<le> P - x" using x by (simp add: P_def)
  have "0 \<le> (P - 2 * x) ^ 2" by simp
  also have "(P - 2 * x) ^ 2 = P ^ 2 - 4 * x * (P - x)" by (simp add: power2_eq_square algebra_simps)
  finally have "4 * x * (P - x) \<le> P ^ 2" by simp
  moreover have "0 < P ^ 2" by (simp add: P_def)
  ultimately have den: "0 < 5 * P ^ 2 - 4 * x * (P - x)" by linarith
  have "0 \<le> 16 * x * (P - x)" using x px by simp
  with den have "0 \<le> 16 * x * (P - x) / (5 * P ^ 2 - 4 * x * (P - x))"
    by (intro divide_nonneg_pos)
  then have "fle (Fin 0) (rnd binary32 (16 * x * (P - x) / (5 * P ^ 2 - 4 * x * (P - x))))"
    by (rule rnd_nonneg)
  then show "fle (Fin 0) (sinf_approx (Fin x))" by (simp only: sinf_approx.simps P_def)
qed

lemma demo_times:
  "to_float (Fin (1 / 2)) = Fin (1 / 2)" "to_float (Fin 1) = Fin 1" "to_float (Fin (7 / 4)) = Fin (7 / 4)"
  by (simp_all add: to_float_def rnd32_half rnd32_1 rnd32_7_4)

lemma demo_clock: "clock_ok (lastFrame initial_state) demo_frames"
  by (simp add: demo_frames_def idle_frame_def jump_frame_def initial_state_def lit_f_0 demo_times)

lemma demo_length: "length (loop_states sinf initial_state demo_frames) = 3"
  by (simp add: demo_frames_def idle_frame_def jump_frame_def initial_state_def)

lemma demo_flags:
  "map isJumping (loop_states sinf initial_state demo_frames) = [True, True, False]
   \<and> jumpHeight (loop_states sinf initial_state demo_frames ! 2) = Fin 0"
proof -
  define s1 where "s1 = frame_step sinf (jump_frame (Fin (1 / 2))) initial_state"
  define s2 where "s2 = frame_step sinf (idle_frame (Fin 1)) s1"
  define s3 where "s3 = frame_step sinf (idle_frame (Fin (7 / 4))) s2"
  have t1: "jumpStartTime s1 = Fin (1 / 2)"
    by (simp add: s1_def frame_step_jumpStartTime jump_frame_def idle_frame_def initial_state_def
        demo_times)
  have j1: "isJumping s1"
    unfolding s1_def frame_step_isJumping t1 [unfolded s1_def]
    by (simp add: jump_frame_def idle_frame_def demo_times sub_f_def fsub_def div_f_def
        jumpDuration_def lit_f_1)
  have t2: "jumpStartTime s2 = Fin (1 / 2)"
    using j1 t1 by (simp add: s2_def frame_step_jumpStartTime)
  have j2: "isJumping s2"
    unfolding s2_def frame_step_isJumping t2 [unfolded s2_def]
    using j1 by (simp add: idle_frame_def demo_times sub_f_def fsub_def div_f_def
        jumpDuration_def lit_f_1 rnd32_half)
  have t3: "jumpStartTime s3 = Fin (1 / 2)"
    using j2 t2 by (simp add: s3_def frame_step_jumpStartTime)
  have j3: "\<not> isJumping s3"
    unfolding s3_def frame_step_isJumping t3 [unfolded s3_def]
    by (simp add: idle_frame_def demo_times sub_f_def fsub_def div_f_def
        jumpDuration_def lit_f_1 rnd32_5_4)
  have h3: "jumpHeight s3 = Fin 0"
    using j3 j2 unfolding s3_def by (intro frame_step_jumpHeight_landed) simp_all
  have "loop_states sinf initial_state demo_frames = [s1, s2, s3]"
    by (simp add: demo_frames_def s1_def s2_def s3_def initial_state_def idle_frame_def
        jump_frame_def)
  with j1 j2 j3 h3 show ?thesis by simp
qed

lemma three_elements:
  assumes "length xs = 3"
  obtains a b c where "xs = [a, b, c]"
  using assms by (auto simp: length_Suc_conv numeral_3_eq_3)

section \<open>The sine, \<open>\<pi>\<close> and the Taylor stand-in\<close>

lemma sin_taylor_21:
  "(\<Sum>m<21. sin_coeff m * y ^ m)
   = y - y ^ 3 / 6 + y ^ 5 / 120 - y ^ 7 / 5040 + y ^ 9 / 362880 - y ^ 11 / 39916800
       + y ^ 13 / 6227020800 - y ^ 15 / 1307674368000 + y ^ 17 / 355687428096000
       - y ^ 19 / 121645100408832000"
  by (simp add: lessThan_nat_numeral lessThan_Suc sin_coeff_def fact_numeral)

lemma sin_poly_real: "real_of_rat (sin_poly x) = (\<Sum>m<21. sin_coeff m * real_of_rat x ^ m)"
  unfolding sin_taylor_21
  by (simp add: sin_poly_def of_rat_add of_rat_diff of_rat_divide of_rat_power)

lemma sin_lipschitz: "\<bar>sin a - sin b\<bar> \<le> \<bar>a - b\<bar>" for a b :: real
proof -
  have "\<bar>sin a - sin b\<bar> = 2 * \<bar>sin ((a - b) / 2)\<bar> * \<bar>cos ((a + b) / 2)\<bar>"
    by (simp add: sin_diff_sin abs_mult)
  also have "\<dots> \<le> 2 * \<bar>(a - b) / 2\<bar> * 1"
    by (intro mult_mono mult_nonneg_nonneg abs_sin_x_le_abs_x abs_cos_le_one) simp_all
  finally show ?thesis by simp
qed

lemma sin_taylor_err:
  fixes y :: real
  assumes "0 \<le> y" "y \<le> 31415927 / 10 ^ 7"
  shows "\<bar>sin y - (\<Sum>m<21. sin_coeff m * y ^ m)\<bar> \<le> 6 / 10 ^ 10"
proof -
  have "\<bar>sin y - (\<Sum>m<21. sin_coeff m * y ^ m)\<bar> \<le> inverse (fact 21) * \<bar>y\<bar> ^ 21"
    by (rule Maclaurin_sin_bound)
  also have "\<dots> \<le> inverse (fact 21) * (31415927 / 10 ^ 7) ^ 21"
    using assms by (intro mult_left_mono power_mono) simp_all
  also have "\<dots> \<le> 6 / 10 ^ 10"
    by (simp add: fact_numeral power_divide)
  finally show ?thesis .
qed

lemma pi_gt_31415926: "31415926 / 10 ^ 7 < pi"
proof (rule ccontr)
  define a :: real where "a = 31415926 / 10 ^ 7"
  assume "\<not> 31415926 / 10 ^ 7 < pi"
  then have le: "pi \<le> a" by (simp add: a_def)
  have "a < 2 * pi" using pi_ge_two by (simp add: a_def)
  with le have "sin a \<le> 0" by (rule sin_le_zero)
  moreover have "\<bar>sin a - (\<Sum>m<21. sin_coeff m * a ^ m)\<bar> \<le> 6 / 10 ^ 10"
    by (rule sin_taylor_err) (simp_all add: a_def)
  moreover have "1 / 10 ^ 8 < (\<Sum>m<21. sin_coeff m * a ^ m)"
    unfolding sin_taylor_21 by (simp add: a_def power_divide)
  ultimately show False by simp
qed

lemma pi_lt_31415927: "pi < 31415927 / 10 ^ 7"
proof (rule ccontr)
  define b :: real where "b = 31415927 / 10 ^ 7"
  assume "\<not> pi < 31415927 / 10 ^ 7"
  then have le: "b \<le> pi" by (simp add: b_def)
  have "0 \<le> b" by (simp add: b_def)
  then have "0 \<le> sin b" using le by (rule sin_ge_zero)
  moreover have "\<bar>sin b - (\<Sum>m<21. sin_coeff m * b ^ m)\<bar> \<le> 6 / 10 ^ 10"
    by (rule sin_taylor_err) (simp_all add: b_def)
  moreover have "(\<Sum>m<21. sin_coeff m * b ^ m) < - (1 / 10 ^ 8)"
    unfolding sin_taylor_21 by (simp add: b_def power_divide)
  ultimately show False by simp
qed

lemma real_of_rat_abs_diff_le:
  "\<bar>a - b\<bar> \<le> c \<Longrightarrow> \<bar>real_of_rat a - real_of_rat b\<bar> \<le> real_of_rat c"
  by (simp only: of_rat_diff [symmetric] abs_of_rat of_rat_less_eq)

lemma sinf_taylor_accurate: "sinf_accurate sinf_taylor"
  unfolding sinf_accurate_def
proof (intro allI impI)
  fix x :: rat
  assume x: "0 \<le> x \<and> x \<le> 31415926 / 10 ^ 7"
  define y where "y = real_of_rat x"
  have "real_of_rat 0 \<le> real_of_rat x" using x by (simp only: of_rat_less_eq)
  then have y0: "0 \<le> y" by (simp add: y_def)
  have "real_of_rat x \<le> real_of_rat (31415926 / 10 ^ 7)" using x by (simp only: of_rat_less_eq)
  then have y1: "y \<le> 31415927 / 10 ^ 7" by (simp add: y_def of_rat_divide of_rat_power)
  have t: "\<bar>sin y - real_of_rat (sin_poly x)\<bar> \<le> 6 / 10 ^ 10"
    unfolding sin_poly_real y_def [symmetric] using y0 y1 by (rule sin_taylor_err)
  have "\<bar>sin y\<bar> \<le> 1" by (rule abs_sin_le_one)
  moreover from t have "\<bar>sin y - real_of_rat (sin_poly x)\<bar> \<le> 1 / 2" by simp
  ultimately have "\<bar>real_of_rat (sin_poly x)\<bar> < 2" by linarith
  then have "real_of_rat \<bar>sin_poly x\<bar> < real_of_rat 2" by (simp add: abs_of_rat)
  then have "\<bar>sin_poly x\<bar> < 2" by (simp only: of_rat_less)
  then have "\<bar>sin_poly x\<bar> < 2 powi 1" by simp
  from rnd_near [OF this, of binary32]
  obtain r where r: "rnd binary32 (sin_poly x) = Fin r" "\<bar>r - sin_poly x\<bar> \<le> 2 powi (1 - 24) / 2"
    by auto
  from r(2) have "\<bar>r - sin_poly x\<bar> \<le> 1 / 2 ^ 24" by simp
  then have "\<bar>real_of_rat r - real_of_rat (sin_poly x)\<bar> \<le> real_of_rat (1 / 2 ^ 24)"
    by (rule real_of_rat_abs_diff_le)
  then have "\<bar>real_of_rat r - real_of_rat (sin_poly x)\<bar> \<le> 1 / 2 ^ 24"
    by (simp add: of_rat_divide of_rat_power)
  then have "\<bar>real_of_rat r - real_of_rat (sin_poly x)\<bar> \<le> 1 / 16777216" by simp
  moreover from t have "\<bar>sin y - real_of_rat (sin_poly x)\<bar> \<le> 1 / 16777216" by simp
  ultimately have "\<bar>real_of_rat r - sin y\<bar> \<le> 1 / 8388608" by linarith
  then have "\<bar>real_of_rat r - sin y\<bar> \<le> 1 / 2 ^ 23" by simp
  with r(1) show "\<exists>r. sinf_taylor (Fin x) = Fin r \<and> \<bar>real_of_rat r - sin (real_of_rat x)\<bar> \<le> 1 / 2 ^ 23"
    by (simp add: y_def)
qed

lemma M_PI_near_pi: "\<bar>884279719003555 / 2 ^ 48 - pi\<bar> \<le> 1 / 10 ^ 7"
proof -
  have "31415926 / 10000000 < pi" using pi_gt_31415926 by simp
  moreover have "pi < 31415927 / 10000000" using pi_lt_31415927 by simp
  ultimately have "\<bar>884279719003555 / 281474976710656 - pi\<bar> \<le> 1 / 10000000" by linarith
  then show ?thesis by simp
qed

section \<open>The collision test\<close>

lemma float_le_rnd:
  assumes "is_float x" "x \<le> q"
  shows "\<not> flt (rnd binary32 q) (Fin x)"
proof -
  have "fle (rnd binary32 x) (rnd binary32 q)"
    using assms(2) by (intro rnd_mono) simp
  then have "fle (Fin x) (rnd binary32 q)"
    using assms(1) by (simp add: is_float_def)
  then show ?thesis by (rule fle_imp_not_flt)
qed

lemma meet_imp_collision:
  assumes "is_float x1" "is_float y1" "is_float x2" "is_float y2"
    and "boxes_meet x1 y1 w1 h1 x2 y2 w2 h2"
  shows "checkCollision (Fin x1) (Fin y1) (Fin w1) (Fin h1) (Fin x2) (Fin y2) (Fin w2) (Fin h2)"
proof -
  from assms(5) have "x2 \<le> x1 + w1" "x1 \<le> x2 + w2" "y2 \<le> y1 + h1" "y1 \<le> y2 + h2"
    by (simp_all add: boxes_meet_def intervals_meet_def)
  then have "\<not> flt (rnd binary32 (x1 + w1)) (Fin x2)" "\<not> flt (rnd binary32 (x2 + w2)) (Fin x1)"
    "\<not> flt (rnd binary32 (y1 + h1)) (Fin y2)" "\<not> flt (rnd binary32 (y2 + h2)) (Fin y1)"
    using assms(1-4) by (simp_all add: float_le_rnd)
  then show ?thesis
    by (simp add: checkCollision_def fgt_flt add_f_def)
qed

lemma exact_edges_collision:
  assumes "0 \<le> w1" "0 \<le> h1" "0 \<le> w2" "0 \<le> h2"
    and "is_float (x1 + w1)" "is_float (y1 + h1)" "is_float (x2 + w2)" "is_float (y2 + h2)"
  shows "checkCollision (Fin x1) (Fin y1) (Fin w1) (Fin h1) (Fin x2) (Fin y2) (Fin w2) (Fin h2)
         = boxes_meet x1 y1 w1 h1 x2 y2 w2 h2"
proof -
  have "checkCollision (Fin x1) (Fin y1) (Fin w1) (Fin h1) (Fin x2) (Fin y2) (Fin w2) (Fin h2)
        = (x2 \<le> x1 + w1 \<and> x1 \<le> x2 + w2 \<and> y2 \<le> y1 + h1 \<and> y1 \<le> y2 + h2)"
    using assms(5-8) by (auto simp add: checkCollision_def fgt_flt add_f_def is_float_def)
  also have "\<dots> = boxes_meet x1 y1 w1 h1 x2 y2 w2 h2"
    using assms(1-4) by (auto simp add: boxes_meet_def intervals_meet_def)
  finally show ?thesis .
qed

text \<open>
  C1, as amended. \<open>checkCollision\<close> is compared with the closed boxes \<open>[x, x + w] \<times> [y, y + h]\<close>
  of exact arithmetic. For positions that are \<^verbatim>\<open>float\<close> values and any sizes it returns
  true whenever the two boxes have a point in common, touching edges included. When the
  sizes are not negative and the four far edges \<open>x + w\<close>, \<open>y + h\<close> are \<^verbatim>\<open>float\<close> values, so
  that the sums of the code are exact, it returns true if and only if the boxes have a
  point in common. Boxes that share the edge \<open>x1 + w1 = x2\<close> and meet on the other axis
  collide. \<open>(0,0,1,1)\<close> and \<open>(5,5,1,1)\<close> do not collide, \<open>(0,0,1,1)\<close> collides with itself,
  \<open>(10,10,1,1)\<close> collides with \<open>(11,10,1,1)\<close>, which it touches, and not with \<open>(12,10,1,1)\<close>.
\<close>

theorem checkCollision_boxes:
  "(is_float x1 \<and> is_float y1 \<and> is_float x2 \<and> is_float y2
      \<and> boxes_meet x1 y1 w1 h1 x2 y2 w2 h2 \<longrightarrow>
      checkCollision (Fin x1) (Fin y1) (Fin w1) (Fin h1) (Fin x2) (Fin y2) (Fin w2) (Fin h2))
   \<and> (0 \<le> w1 \<and> 0 \<le> h1 \<and> 0 \<le> w2 \<and> 0 \<le> h2
      \<and> is_float (x1 + w1) \<and> is_float (y1 + h1) \<and> is_float (x2 + w2) \<and> is_float (y2 + h2) \<longrightarrow>
      checkCollision (Fin x1) (Fin y1) (Fin w1) (Fin h1) (Fin x2) (Fin y2) (Fin w2) (Fin h2)
        = boxes_meet x1 y1 w1 h1 x2 y2 w2 h2)
   \<and> (is_float x1 \<and> is_float y1 \<and> is_float x2 \<and> is_float y2
      \<and> 0 \<le> w1 \<and> 0 \<le> w2 \<and> x1 + w1 = x2 \<and> intervals_meet y1 (y1 + h1) y2 (y2 + h2) \<longrightarrow>
      checkCollision (Fin x1) (Fin y1) (Fin w1) (Fin h1) (Fin x2) (Fin y2) (Fin w2) (Fin h2))
   \<and> \<not> checkCollision (Fin 0) (Fin 0) (Fin 1) (Fin 1) (Fin 5) (Fin 5) (Fin 1) (Fin 1)
   \<and> checkCollision (Fin 0) (Fin 0) (Fin 1) (Fin 1) (Fin 0) (Fin 0) (Fin 1) (Fin 1)
   \<and> checkCollision (Fin 10) (Fin 10) (Fin 1) (Fin 1) (Fin 11) (Fin 10) (Fin 1) (Fin 1)
   \<and> \<not> checkCollision (Fin 10) (Fin 10) (Fin 1) (Fin 1) (Fin 12) (Fin 10) (Fin 1) (Fin 1)"
proof -
  have a: "is_float x1 \<and> is_float y1 \<and> is_float x2 \<and> is_float y2
      \<and> boxes_meet x1 y1 w1 h1 x2 y2 w2 h2 \<longrightarrow>
      checkCollision (Fin x1) (Fin y1) (Fin w1) (Fin h1) (Fin x2) (Fin y2) (Fin w2) (Fin h2)"
    using meet_imp_collision by blast
  have b: "0 \<le> w1 \<and> 0 \<le> h1 \<and> 0 \<le> w2 \<and> 0 \<le> h2
      \<and> is_float (x1 + w1) \<and> is_float (y1 + h1) \<and> is_float (x2 + w2) \<and> is_float (y2 + h2) \<longrightarrow>
      checkCollision (Fin x1) (Fin y1) (Fin w1) (Fin h1) (Fin x2) (Fin y2) (Fin w2) (Fin h2)
        = boxes_meet x1 y1 w1 h1 x2 y2 w2 h2"
    using exact_edges_collision by blast
  have "boxes_meet x1 y1 w1 h1 x2 y2 w2 h2"
    if "0 \<le> w1" "0 \<le> w2" "x1 + w1 = x2" "intervals_meet y1 (y1 + h1) y2 (y2 + h2)"
    using that by (auto simp: boxes_meet_def intervals_meet_def)
  then have c: "is_float x1 \<and> is_float y1 \<and> is_float x2 \<and> is_float y2
      \<and> 0 \<le> w1 \<and> 0 \<le> w2 \<and> x1 + w1 = x2 \<and> intervals_meet y1 (y1 + h1) y2 (y2 + h2) \<longrightarrow>
      checkCollision (Fin x1) (Fin y1) (Fin w1) (Fin h1) (Fin x2) (Fin y2) (Fin w2) (Fin h2)"
    using meet_imp_collision by blast
  have d: "\<not> checkCollision (Fin 0) (Fin 0) (Fin 1) (Fin 1) (Fin 5) (Fin 5) (Fin 1) (Fin 1)"
    by (simp add: checkCollision_def fgt_flt add_f_def rnd32_1 rnd32_6)
  have e: "checkCollision (Fin 0) (Fin 0) (Fin 1) (Fin 1) (Fin 0) (Fin 0) (Fin 1) (Fin 1)"
    by (simp add: checkCollision_def fgt_flt add_f_def rnd32_1)
  have f: "checkCollision (Fin 10) (Fin 10) (Fin 1) (Fin 1) (Fin 11) (Fin 10) (Fin 1) (Fin 1)"
    by (simp add: checkCollision_def fgt_flt add_f_def rnd32_11 rnd32_12)
  have g: "\<not> checkCollision (Fin 10) (Fin 10) (Fin 1) (Fin 1) (Fin 12) (Fin 10) (Fin 1) (Fin 1)"
    by (simp add: checkCollision_def fgt_flt add_f_def rnd32_11 rnd32_13)
  from a b c d e f g show ?thesis by blast
qed

theorem checkCollision_boxes_witness:
  "is_float 10 \<and> is_float (21 / 2) \<and> boxes_meet 10 10 1 1 (21 / 2) (21 / 2) 1 1
   \<and> checkCollision (Fin 10) (Fin 10) (Fin 1) (Fin 1) (Fin (21 / 2)) (Fin (21 / 2)) (Fin 1) (Fin 1)
   \<and> (0 :: rat) \<le> 1 \<and> is_float (10 + 1) \<and> is_float (12 + 1)
   \<and> checkCollision (Fin 10) (Fin 10) (Fin 1) (Fin 1) (Fin 12) (Fin 10) (Fin 1) (Fin 1)
       = boxes_meet 10 10 1 1 12 10 1 1
   \<and> \<not> boxes_meet 10 10 1 1 12 10 1 1
   \<and> is_float 11 \<and> (10 :: rat) + 1 = 11 \<and> intervals_meet 10 (10 + 1) 10 (10 + 1)
   \<and> checkCollision (Fin 10) (Fin 10) (Fin 1) (Fin 1) (Fin 11) (Fin 10) (Fin 1) (Fin 1)"
proof -
  have fl: "is_float 10" "is_float (21 / 2)" "is_float 11" "is_float (10 + 1)" "is_float (12 + 1)"
    by (simp_all add: is_float_def rnd32_10 rnd32_21_2 rnd32_11 rnd32_13)
  have m: "boxes_meet 10 10 1 1 (21 / 2) (21 / 2) 1 1" "\<not> boxes_meet 10 10 1 1 12 10 1 1"
    "intervals_meet 10 (10 + 1) 10 (10 + 1)"
    by (simp_all add: boxes_meet_def intervals_meet_def)
  have z: "(0 :: rat) \<le> 1" "(10 :: rat) + 1 = 11" by simp_all
  from checkCollision_boxes [of 10 10 "21 / 2" "21 / 2" 1 1 1 1] fl m
  have 1: "checkCollision (Fin 10) (Fin 10) (Fin 1) (Fin 1) (Fin (21 / 2)) (Fin (21 / 2)) (Fin 1) (Fin 1)"
    by blast
  from checkCollision_boxes [of 10 10 12 10 1 1 1 1] fl z
  have 2: "checkCollision (Fin 10) (Fin 10) (Fin 1) (Fin 1) (Fin 12) (Fin 10) (Fin 1) (Fin 1)
       = boxes_meet 10 10 1 1 12 10 1 1"
    by blast
  from checkCollision_boxes [of 10 10 11 10 1 1 1 1] fl z m
  have 3: "checkCollision (Fin 10) (Fin 10) (Fin 1) (Fin 1) (Fin 11) (Fin 10) (Fin 1) (Fin 1)"
    by blast
  from fl m z 1 2 3 show ?thesis by blast
qed

text \<open>
  C1 as stated, for all box parameters, does not hold. The boxes \<open>(16777216, 0, 1.5, 1)\<close> and
  \<open>(16777218, 0, 1, 1)\<close> are half a unit apart on the first axis, and \<open>checkCollision\<close>
  returns true: the right edge \<open>16777217.5\<close> of the first is not a \<^verbatim>\<open>float\<close> and the sum of
  the code is \<open>16777218\<close>. A box whose position is not a number collides with every box,
  since every comparison with it is false. A negative width gives an empty box, and
  \<open>(0, 0, -1, 1)\<close> collides with \<open>(-5, 0, 10, 1)\<close>.
\<close>

theorem checkCollision_not_boxes:
  "is_float 16777216 \<and> is_float (3 / 2) \<and> is_float 16777218 \<and> is_float 0 \<and> is_float 1
   \<and> checkCollision (Fin 16777216) (Fin 0) (Fin (3 / 2)) (Fin 1) (Fin 16777218) (Fin 0) (Fin 1) (Fin 1)
   \<and> \<not> boxes_meet 16777216 0 (3 / 2) 1 16777218 0 1 1
   \<and> checkCollision NaN (Fin 0) (Fin 1) (Fin 1) (Fin 5) (Fin 0) (Fin 1) (Fin 1)
   \<and> checkCollision (Fin 0) (Fin 0) (Fin (- 1)) (Fin 1) (Fin (- 5)) (Fin 0) (Fin 10) (Fin 1)
   \<and> \<not> boxes_meet 0 0 (- 1) 1 (- 5) 0 10 1"
  by (simp add: is_float_def rnd32_16777216 rnd32_3_2 rnd32_16777218 rnd32_1
      checkCollision_def fgt_flt flt_def add_f_def rnd32_33554435_2 rnd32_16777219 rnd32_neg1 rnd32_5 rnd32_6
      boxes_meet_def intervals_meet_def)

text \<open>
  C5. \<open>checkCollision\<close> gives the same answer when the two boxes are exchanged, for all
  arguments, \<open>NaN\<close> and boxes that share an edge coordinate included.
\<close>

theorem checkCollision_symmetric:
  "checkCollision x1 y1 width1 height1 x2 y2 width2 height2
     = checkCollision x2 y2 width2 height2 x1 y1 width1 height1"
  by (auto simp: checkCollision_def fgt_flt)

text \<open>
  C10. Whenever \<open>checkCollisionDirection\<close> returns a direction other than \<open>0\<close>,
  \<open>checkCollision\<close> returns true on the same eight arguments.
\<close>

theorem direction_implies_collision:
  "checkCollisionDirection x1 y1 width1 height1 x2 y2 width2 height2 \<noteq> 0
     \<Longrightarrow> checkCollision x1 y1 width1 height1 x2 y2 width2 height2"
  by (auto simp: checkCollisionDirection_def checkCollision_def fgt_flt
           split: if_splits dest: flt_asym)

theorem direction_implies_collision_witness:
  "checkCollisionDirection (lit_f 0) (lit_f 0) (lit_f 2) (lit_f 2) (lit_f 1) (lit_f 1) (lit_f 2) (lit_f 2) = 1
   \<and> checkCollision (lit_f 0) (lit_f 0) (lit_f 2) (lit_f 2) (lit_f 1) (lit_f 1) (lit_f 2) (lit_f 2)"
proof -
  have d: "checkCollisionDirection (lit_f 0) (lit_f 0) (lit_f 2) (lit_f 2) (lit_f 1) (lit_f 1) (lit_f 2) (lit_f 2) = 1"
    by (simp add: checkCollisionDirection_def fgt_flt add_f_def lit_f_0 lit_f_1 lit_f_2 rnd32_2 rnd32_3)
  then have "checkCollisionDirection (lit_f 0) (lit_f 0) (lit_f 2) (lit_f 2) (lit_f 1) (lit_f 1) (lit_f 2) (lit_f 2) \<noteq> 0"
    by simp
  from direction_implies_collision [OF this] d show ?thesis by simp
qed

section \<open>The translation matrix\<close>

lemma upt_16: "[0..<16] = [0, 1, 2, 3, 4, 5, 6, 7, 8, 9, 10, 11, 12, 13, 14, 15::nat]"
  by code_simp

lemma sixteen_slots:
  assumes "16 \<le> length (m :: 'a list)"
  obtains a0 a1 a2 a3 a4 a5 a6 a7 a8 a9 a10 a11 a12 a13 a14 a15 r
  where "m = [a0, a1, a2, a3, a4, a5, a6, a7, a8, a9, a10, a11, a12, a13, a14, a15] @ r"
proof -
  from assms have "Suc (Suc (Suc (Suc (Suc (Suc (Suc (Suc (Suc (Suc (Suc (Suc (Suc (Suc (Suc (Suc 0)))))))))))))))
      \<le> length m"
    by simp
  then show ?thesis
    using that by (auto simp: Suc_le_length_iff)
qed

lemma identityMatrix_slots:
  "identityMatrix ([a0, a1, a2, a3, a4, a5, a6, a7, a8, a9, a10, a11, a12, a13, a14, a15] @ r)
   = Some ([Fin 1, Fin 0, Fin 0, Fin 0, Fin 0, Fin 1, Fin 0, Fin 0,
            Fin 0, Fin 0, Fin 1, Fin 0, Fin 0, Fin 0, Fin 0, Fin 1] @ r)"
  by (simp add: identityMatrix_def upt_16 lit_f_0 lit_f_1)


text \<open>
  C6. For every \<open>x\<close> and \<open>y\<close>, \<open>createTranslationMatrix\<close> fills the sixteen slots of the
  caller's array with the row-major matrix whose slots \<open>3\<close> and \<open>7\<close> are \<open>x\<close> and \<open>y\<close>,
  whose slots \<open>0\<close>, \<open>5\<close>, \<open>10\<close> and \<open>15\<close> are \<open>1\<close> and whose other slots, slot \<open>11\<close> among
  them, are \<open>0\<close>; any slots beyond the sixteenth are left as they were.
\<close>

theorem createTranslationMatrix_entries:
  assumes "16 \<le> length matrix"
  shows "createTranslationMatrix x y matrix
         = Some ([Fin 1, Fin 0, Fin 0, x, Fin 0, Fin 1, Fin 0, y,
                  Fin 0, Fin 0, Fin 1, Fin 0, Fin 0, Fin 0, Fin 0, Fin 1] @ drop 16 matrix)"
proof -
  from assms obtain a0 a1 a2 a3 a4 a5 a6 a7 a8 a9 a10 a11 a12 a13 a14 a15 r
    where m: "matrix = [a0, a1, a2, a3, a4, a5, a6, a7, a8, a9, a10, a11, a12, a13, a14, a15] @ r"
    by (rule sixteen_slots)
  show ?thesis
    unfolding m createTranslationMatrix_def identityMatrix_slots by simp
qed

theorem createTranslationMatrix_entries_witness:
  "16 \<le> length (replicate 16 NaN)
   \<and> createTranslationMatrix (lit_f 2) (lit_f 3) (replicate 16 NaN)
       = Some [Fin 1, Fin 0, Fin 0, Fin 2, Fin 0, Fin 1, Fin 0, Fin 3,
               Fin 0, Fin 0, Fin 1, Fin 0, Fin 0, Fin 0, Fin 0, Fin 1]"
proof -
  have l: "16 \<le> length (replicate 16 NaN)" by simp
  from createTranslationMatrix_entries [OF l, of "lit_f 2" "lit_f 3"] l
  show ?thesis by (simp add: lit_f_2 lit_f_3)
qed

section \<open>The jump\<close>

text \<open>
  C7. When space is pressed and no jump is under way, the input step sets
  \<open>isJumping\<close>, records the time of the current frame as \<open>jumpStartTime\<close> and clears
  \<open>isFalling\<close>, and changes nothing else; the start time recorded in the iteration is the
  frame's reading of the clock. When space is pressed during a jump, the input step
  changes nothing, and the iteration keeps the start time.
\<close>

theorem space_starts_jump:
  "(key_space f \<and> \<not> isJumping s \<longrightarrow>
      space_step currentFrame f s
        = s\<lparr>isJumping := True, jumpStartTime := currentFrame, isFalling := False\<rparr>
      \<and> jumpStartTime (frame_step sinf f s) = to_float (glfwGetTime f))
   \<and> (key_space f \<and> isJumping s \<longrightarrow>
      space_step currentFrame f s = s
      \<and> jumpStartTime (frame_step sinf f s) = jumpStartTime s)"
  by (simp add: frame_step_jumpStartTime) (simp add: space_step_def)

theorem space_starts_jump_witness:
  "key_space (jump_frame (Fin 1)) \<and> \<not> isJumping initial_state
   \<and> space_step (Fin 1) (jump_frame (Fin 1)) initial_state
       = initial_state\<lparr>isJumping := True, jumpStartTime := Fin 1, isFalling := False\<rparr>
   \<and> isJumping (initial_state\<lparr>isJumping := True\<rparr>)
   \<and> space_step (Fin 1) (jump_frame (Fin 1)) (initial_state\<lparr>isJumping := True\<rparr>)
       = initial_state\<lparr>isJumping := True\<rparr>"
proof -
  have k: "key_space (jump_frame (Fin 1))" by (simp add: jump_frame_def)
  have n: "\<not> isJumping initial_state" by (simp add: initial_state_def)
  have j: "isJumping (initial_state\<lparr>isJumping := True\<rparr>)" by simp
  from k n j
    space_starts_jump [of "jump_frame (Fin 1)" initial_state "Fin 1" sinf_approx]
    space_starts_jump [of "jump_frame (Fin 1)" "initial_state\<lparr>isJumping := True\<rparr>" "Fin 1" sinf_approx]
  show ?thesis by simp
qed

lemma jump_endings_idle: "\<not> isJumping s \<Longrightarrow> jump_endings sinf s ts = 0"
  by (induction ts arbitrary: s) (simp_all add: jump_step_def)

lemma jump_endings_count:
  "isJumping s \<Longrightarrow>
   jump_endings sinf s ts = (if \<forall>t \<in> set ts. flt (jumpProgress t s) (lit_f 1) then 0 else 1)"
proof (induction ts arbitrary: s)
  case Nil
  then show ?case by simp
next
  case (Cons t ts)
  show ?case
  proof (cases "flt (jumpProgress t s) (lit_f 1)")
    case True
    with Cons.prems have j: "isJumping (jump_step sinf t s)" by (simp add: jump_step_def)
    from Cons.IH [OF j] Cons.prems True j show ?thesis by simp
  next
    case False
    with Cons.prems have j: "\<not> isJumping (jump_step sinf t s)" by (simp add: jump_step_def)
    then have "jump_endings sinf (jump_step sinf t s) ts = 0" by (rule jump_endings_idle)
    with Cons.prems False j show ?thesis by simp
  qed
qed


lemma jump_steps_idle: "\<not> isJumping s \<Longrightarrow> jump_steps sinf s ts = s"
  by (induction ts arbitrary: s) (simp_all add: jump_step_def)

lemma jump_steps_flags:
  "isJumping s \<Longrightarrow>
   (if \<forall>t \<in> set ts. flt (jumpProgress t s) (lit_f 1)
    then isJumping (jump_steps sinf s ts) \<and> isFalling (jump_steps sinf s ts) = isFalling s
    else \<not> isJumping (jump_steps sinf s ts) \<and> isFalling (jump_steps sinf s ts)
         \<and> jumpHeight (jump_steps sinf s ts) = lit_f 0)"
proof (induction ts arbitrary: s)
  case Nil
  then show ?case by simp
next
  case (Cons t ts)
  show ?case
  proof (cases "flt (jumpProgress t s) (lit_f 1)")
    case True
    with Cons.prems have j: "isJumping (jump_step sinf t s)"
      and f: "isFalling (jump_step sinf t s) = isFalling s"
      by (simp_all add: jump_step_def)
    from Cons.IH [OF j] True f show ?thesis by simp
  next
    case False
    with Cons.prems have "\<not> isJumping (jump_step sinf t s)"
      "isFalling (jump_step sinf t s)" "jumpHeight (jump_step sinf t s) = lit_f 0"
      by (simp_all add: jump_step_def)
    with False show ?thesis by (simp add: jump_steps_idle)
  qed
qed

text \<open>
  The offset of the code against the curve of the specification. The argument that
  \<^verbatim>\<open>sinf\<close> receives is \<open>progress * \<pi>\<close> up to the rounding of \<^verbatim>\<open>M_PI\<close>, of the product of
  doubles and of the conversion to \<^verbatim>\<open>float\<close>; the sine changes by no more than its argument
  does, and the product with \<open>0.5f\<close> is rounded once more.
\<close>

lemma jump_curve_near_sine:
  assumes s: "sinf_accurate sinf" and p: "rnd binary32 d = Fin p" "0 \<le> p" "p < 1"
  shows "\<exists>h. jump_curve sinf (Fin p) = Fin h
           \<and> \<bar>real_of_rat h - sin (real_of_rat p * pi) * (1 / 2)\<bar> \<le> 1 / 10 ^ 6"
proof -
  define M :: rat where "M = 884279719003555 / 2 ^ 48"
  from p(1,3) have p1: "p \<le> 1 - 1 / 2 ^ 24" by (rule rnd32_below_one)
  have pm: "0 \<le> p * M" "p * M \<le> (1 - 1 / 2 ^ 24) * M"
    using p(2) p1 by (simp_all add: M_def)
  then have "\<bar>p * M\<bar> < 2 powi 2" by (simp add: M_def)
  from rnd_near [OF this, of binary64]
  obtain d2 where d2: "rnd binary64 (p * M) = Fin d2" "\<bar>d2 - p * M\<bar> \<le> 2 powi (2 - 53) / 2" "0 \<le> d2"
    using pm(1) by auto
  from d2(2) have d2e: "\<bar>d2 - p * M\<bar> \<le> 1 / 2 ^ 52" by simp
  have "d2 - p * M \<le> 1 / 2 ^ 52"
    using abs_ge_self [of "d2 - p * M"] d2e by linarith
  with pm(2) have d2le: "d2 \<le> (1 - 1 / 2 ^ 24) * M + 1 / 2 ^ 52" by simp
  with d2(3) have "\<bar>d2\<bar> < 2 powi 2" by (simp add: M_def)
  from rnd_near [OF this, of binary32]
  obtain a where a: "rnd binary32 d2 = Fin a" "\<bar>a - d2\<bar> \<le> 2 powi (2 - 24) / 2" "0 \<le> a"
    using d2(3) by auto
  from a(2) have ae: "\<bar>a - d2\<bar> \<le> 1 / 2 ^ 23" by simp
  have "a - d2 \<le> 1 / 2 ^ 23"
    using abs_ge_self [of "a - d2"] ae by linarith
  with d2le have "a \<le> 31415926 / 10 ^ 7" by (simp add: M_def)
  with s a(3) obtain r where r: "sinf (Fin a) = Fin r"
    "\<bar>real_of_rat r - sin (real_of_rat a)\<bar> \<le> 1 / 2 ^ 23"
    unfolding sinf_accurate_def by blast
  have "\<bar>sin (real_of_rat a)\<bar> \<le> 1" by (rule abs_sin_le_one)
  moreover from r(2) have B: "\<bar>real_of_rat r - sin (real_of_rat a)\<bar> \<le> 1 / 8388608" by simp
  ultimately have "\<bar>real_of_rat r\<bar> < 2" by linarith
  then have "real_of_rat \<bar>r\<bar> < real_of_rat 2" by (simp add: abs_of_rat)
  then have "\<bar>r\<bar> < 2" by (simp only: of_rat_less)
  then have "\<bar>r * (1 / 2)\<bar> < 2 powi 0" by simp
  from rnd_near [OF this, of binary32]
  obtain h where h: "rnd binary32 (r * (1 / 2)) = Fin h" "\<bar>h - r * (1 / 2)\<bar> \<le> 2 powi (0 - 24) / 2"
    by auto
  have curve: "jump_curve sinf (Fin p) = Fin h"
    by (simp only: jump_curve_def M_PI_val M_def [symmetric] mul_d_def fmul.simps d2(1)
        to_float_def cast.simps a(1) lit_f_half r(1) mul_f_def h(1))
  from h(2) have "\<bar>h - r * (1 / 2)\<bar> \<le> 1 / 2 ^ 25" by simp
  then have "\<bar>real_of_rat h - real_of_rat (r * (1 / 2))\<bar> \<le> real_of_rat (1 / 2 ^ 25)"
    by (rule real_of_rat_abs_diff_le)
  then have A: "\<bar>real_of_rat h - real_of_rat r / 2\<bar> \<le> 1 / 33554432"
    by (simp add: of_rat_divide of_rat_power of_rat_mult)
  have C: "\<bar>sin (real_of_rat a) - sin (real_of_rat p * pi)\<bar> \<le> \<bar>real_of_rat a - real_of_rat p * pi\<bar>"
    by (rule sin_lipschitz)
  from ae have "\<bar>real_of_rat a - real_of_rat d2\<bar> \<le> real_of_rat (1 / 2 ^ 23)"
    by (rule real_of_rat_abs_diff_le)
  then have D: "\<bar>real_of_rat a - real_of_rat d2\<bar> \<le> 1 / 8388608"
    by (simp add: of_rat_divide of_rat_power)
  from d2e have "\<bar>real_of_rat d2 - real_of_rat (p * M)\<bar> \<le> real_of_rat (1 / 2 ^ 52)"
    by (rule real_of_rat_abs_diff_le)
  then have E: "\<bar>real_of_rat d2 - real_of_rat p * (884279719003555 / 2 ^ 48)\<bar> \<le> 1 / 4503599627370496"
    by (simp add: of_rat_divide of_rat_power of_rat_mult M_def)
  have "real_of_rat 0 \<le> real_of_rat p" "real_of_rat p \<le> real_of_rat 1"
    using p(2,3) by (simp_all only: of_rat_less_eq)
  then have P: "0 \<le> real_of_rat p" "real_of_rat p \<le> 1" by simp_all
  have "\<bar>real_of_rat p * (884279719003555 / 2 ^ 48) - real_of_rat p * pi\<bar>
        = real_of_rat p * \<bar>884279719003555 / 2 ^ 48 - pi\<bar>"
    using P(1) by (simp only: right_diff_distrib [symmetric] abs_mult abs_of_nonneg)
  also have "\<dots> \<le> 1 * (1 / 10 ^ 7)"
    using P M_PI_near_pi by (intro mult_mono) simp_all
  finally have F: "\<bar>real_of_rat p * (884279719003555 / 2 ^ 48) - real_of_rat p * pi\<bar> \<le> 1 / 10000000"
    by simp
  from D E F have "\<bar>real_of_rat a - real_of_rat p * pi\<bar> \<le> 3 / 10000000" by linarith
  with C have "\<bar>sin (real_of_rat a) - sin (real_of_rat p * pi)\<bar> \<le> 3 / 10000000" by linarith
  with A B have "\<bar>real_of_rat h - sin (real_of_rat p * pi) / 2\<bar> \<le> 1 / 1000000" by linarith
  then have "\<bar>real_of_rat h - sin (real_of_rat p * pi) * (1 / 2)\<bar> \<le> 1 / 10 ^ 6" by simp
  with curve show ?thesis by blast
qed

lemma div_f_jumpDuration_Fin:
  assumes "div_f a jumpDuration = Fin p"
  shows "\<exists>d. rnd binary32 d = Fin p"
  using assms
  by (cases a) (auto simp: div_f_def jumpDuration_def lit_f_1 inf_of_sign_def split: if_splits)

lemma jump_step_near_sine:
  assumes "sinf_accurate sinf" "isJumping s" "jumpProgress t s = Fin p" "0 \<le> p" "p < 1"
  shows "\<exists>h. jump_step sinf t s = s\<lparr>jumpHeight := Fin h\<rparr>
           \<and> \<bar>real_of_rat h - sin (real_of_rat p * pi) * (1 / 2)\<bar> \<le> 1 / 10 ^ 6"
proof -
  from assms(3) obtain d where "rnd binary32 d = Fin p"
    unfolding jumpProgress_def by (auto dest: div_f_jumpDuration_Fin)
  from jump_curve_near_sine [OF assms(1) this assms(4,5)]
  obtain h where h: "jump_curve sinf (Fin p) = Fin h"
    "\<bar>real_of_rat h - sin (real_of_rat p * pi) * (1 / 2)\<bar> \<le> 1 / 10 ^ 6"
    by blast
  from assms(2,3,5) h(1) have "jump_step sinf t s = s\<lparr>jumpHeight := Fin h\<rparr>"
    by (simp add: jump_step_def lit_f_1)
  with h(2) show ?thesis by blast
qed

lemma jump_start_progress:
  "jumpProgress (Fin (1 / 2)) jump_start = Fin 0"
  "jumpProgress (Fin (3 / 4)) jump_start = Fin (1 / 4)"
  "jumpProgress (Fin 1) jump_start = Fin (1 / 2)"
  "jumpProgress (Fin (5 / 4)) jump_start = Fin (3 / 4)"
  "jumpProgress (Fin (7 / 4)) jump_start = Fin (5 / 4)"
  by (simp_all add: jump_start_def jumpProgress_def sub_f_def fsub_def div_f_def jumpDuration_def
      lit_f_1 rnd32_quarter rnd32_half rnd32_3_4 rnd32_5_4)

lemma jump_curve_taylor:
  "jump_curve sinf_taylor (Fin 0) = Fin 0"
  "jump_curve sinf_taylor (Fin (1 / 4)) = Fin (11863283 / 33554432)"
  "jump_curve sinf_taylor (Fin (1 / 2)) = Fin (1 / 2)"
  "jump_curve sinf_taylor (Fin (3 / 4)) = Fin (11863283 / 33554432)"
  unfolding jump_curve_def lit_f_half M_PI_val mul_d_def to_float_def mul_f_def
  by (simp_all add: rnd64_pi_quarter rnd32_pi_quarter rnd32_sin_pi_quarter rnd32_offset_quarter
      rnd64_pi_half rnd32_pi_half rnd32_sin_pi_half rnd32_half
      rnd64_pi_3_4 rnd32_pi_3_4 rnd32_sin_pi_3_4, simp add: sin_poly_def)

lemma jump_start_steps:
  "jump_step sinf_taylor (Fin (1 / 2)) jump_start = jump_start\<lparr>jumpHeight := Fin 0\<rparr>"
  "jump_step sinf_taylor (Fin (3 / 4)) jump_start = jump_start\<lparr>jumpHeight := Fin (11863283 / 33554432)\<rparr>"
  "jump_step sinf_taylor (Fin 1) jump_start = jump_start\<lparr>jumpHeight := Fin (1 / 2)\<rparr>"
  "jump_step sinf_taylor (Fin (5 / 4)) jump_start = jump_start\<lparr>jumpHeight := Fin (11863283 / 33554432)\<rparr>"
  by (simp_all add: jump_step_def jump_start_progress jump_curve_taylor lit_f_1, simp_all add: jump_start_def)

lemma offset_unique:
  "s\<lparr>jumpHeight := Fin h\<rparr> = s\<lparr>jumpHeight := Fin h'\<rparr> \<Longrightarrow> h = h'"
proof -
  assume "s\<lparr>jumpHeight := Fin h\<rparr> = s\<lparr>jumpHeight := Fin h'\<rparr>"
  then have "jumpHeight (s\<lparr>jumpHeight := Fin h\<rparr>) = jumpHeight (s\<lparr>jumpHeight := Fin h'\<rparr>)"
    by (rule arg_cong)
  then show ?thesis by simp
qed

text \<open>
  C2, as amended. The progress of a jump is \<open>(now - jumpStartTime) / jumpDuration\<close>. While
  \<open>isJumping\<close> is set, a jump step with a progress \<open>p\<close> from \<open>0\<close> to below \<open>1\<close> changes
  nothing but the offset, and sets it to a number within \<open>10\<^sup>-\<^sup>6\<close> of \<open>sin (p * \<pi>) * 0.5\<close>,
  for every \<^verbatim>\<open>sinf\<close> that is within \<open>2\<^sup>-\<^sup>2\<^sup>3\<close> of the sine between \<open>0\<close> and \<open>3.1415926\<close>. A jump
  step with progress \<open>1\<close> or more zeroes the offset, clears \<open>isJumping\<close> and sets
  \<open>isFalling\<close>. Over any sequence of jump steps of one jump this ending happens once if
  some step has a progress that is not below \<open>1\<close>, and the steps leave the jump ended,
  with offset \<open>0\<close>; otherwise it does not happen and the jump is still under way.
  With the Taylor stand-in the offsets at progress \<open>0\<close>, \<open>0.25\<close>, \<open>0.5\<close> and \<open>0.75\<close> are \<open>0\<close>,
  \<open>11863283 / 2\<^sup>2\<^sup>5\<close>, \<open>0.5\<close> and \<open>11863283 / 2\<^sup>2\<^sup>5\<close>.
\<close>

theorem jump_offset_sine:
  "jumpProgress t s = div_f (sub_f t (jumpStartTime s)) jumpDuration
   \<and> (sinf_accurate sinf \<and> isJumping s \<and> jumpProgress t s = Fin p \<and> 0 \<le> p \<and> p < 1 \<longrightarrow>
        (\<exists>h. jump_step sinf t s = s\<lparr>jumpHeight := Fin h\<rparr>
           \<and> \<bar>real_of_rat h - sin (real_of_rat p * pi) * (1 / 2)\<bar> \<le> 1 / 10 ^ 6))
   \<and> (isJumping s \<and> fle (lit_f 1) (jumpProgress t s) \<longrightarrow>
        jump_step sinf t s = s\<lparr>jumpHeight := lit_f 0, isJumping := False, isFalling := True\<rparr>)
   \<and> (isJumping s \<longrightarrow>
        jump_endings sinf s ts
          = (if \<forall>t \<in> set ts. flt (jumpProgress t s) (lit_f 1) then 0 else 1))
   \<and> (isJumping s \<and> \<not> (\<forall>t \<in> set ts. flt (jumpProgress t s) (lit_f 1)) \<longrightarrow>
        \<not> isJumping (jump_steps sinf s ts) \<and> isFalling (jump_steps sinf s ts)
        \<and> jumpHeight (jump_steps sinf s ts) = lit_f 0)
   \<and> (isJumping s \<and> (\<forall>t \<in> set ts. flt (jumpProgress t s) (lit_f 1)) \<longrightarrow>
        isJumping (jump_steps sinf s ts))"
proof -
  have a: "jumpProgress t s = div_f (sub_f t (jumpStartTime s)) jumpDuration"
    by (simp add: jumpProgress_def)
  have b: "sinf_accurate sinf \<and> isJumping s \<and> jumpProgress t s = Fin p \<and> 0 \<le> p \<and> p < 1 \<longrightarrow>
        (\<exists>h. jump_step sinf t s = s\<lparr>jumpHeight := Fin h\<rparr>
           \<and> \<bar>real_of_rat h - sin (real_of_rat p * pi) * (1 / 2)\<bar> \<le> 1 / 10 ^ 6)"
    using jump_step_near_sine [of sinf s t p] by blast
  have "fle (lit_f 1) (jumpProgress t s) \<Longrightarrow> \<not> flt (jumpProgress t s) (lit_f 1)"
    by (rule fle_imp_not_flt)
  then have c: "isJumping s \<and> fle (lit_f 1) (jumpProgress t s) \<longrightarrow>
        jump_step sinf t s = s\<lparr>jumpHeight := lit_f 0, isJumping := False, isFalling := True\<rparr>"
    by (simp add: jump_step_def)
  have d: "isJumping s \<longrightarrow>
        jump_endings sinf s ts
          = (if \<forall>t \<in> set ts. flt (jumpProgress t s) (lit_f 1) then 0 else 1)"
    by (simp add: jump_endings_count)
  have e: "isJumping s \<and> \<not> (\<forall>t \<in> set ts. flt (jumpProgress t s) (lit_f 1)) \<longrightarrow>
        \<not> isJumping (jump_steps sinf s ts) \<and> isFalling (jump_steps sinf s ts)
        \<and> jumpHeight (jump_steps sinf s ts) = lit_f 0"
    using jump_steps_flags [of s ts sinf] by (simp split: if_splits)
  have f: "isJumping s \<and> (\<forall>t \<in> set ts. flt (jumpProgress t s) (lit_f 1)) \<longrightarrow>
        isJumping (jump_steps sinf s ts)"
    using jump_steps_flags [of s ts sinf] by (simp split: if_splits)
  from a b c d e f show ?thesis by blast
qed

theorem jump_offset_sine_witness:
  "sinf_accurate sinf_taylor \<and> isJumping jump_start
   \<and> jumpProgress (Fin (1 / 2)) jump_start = Fin 0
   \<and> jump_step sinf_taylor (Fin (1 / 2)) jump_start = jump_start\<lparr>jumpHeight := Fin 0\<rparr>
   \<and> \<bar>real_of_rat 0 - sin (real_of_rat 0 * pi) * (1 / 2)\<bar> \<le> 1 / 10 ^ 6
   \<and> jumpProgress (Fin (3 / 4)) jump_start = Fin (1 / 4)
   \<and> jump_step sinf_taylor (Fin (3 / 4)) jump_start
       = jump_start\<lparr>jumpHeight := Fin (11863283 / 33554432)\<rparr>
   \<and> \<bar>real_of_rat (11863283 / 33554432) - sin (real_of_rat (1 / 4) * pi) * (1 / 2)\<bar> \<le> 1 / 10 ^ 6
   \<and> jumpProgress (Fin 1) jump_start = Fin (1 / 2)
   \<and> jump_step sinf_taylor (Fin 1) jump_start = jump_start\<lparr>jumpHeight := Fin (1 / 2)\<rparr>
   \<and> \<bar>real_of_rat (1 / 2) - sin (real_of_rat (1 / 2) * pi) * (1 / 2)\<bar> \<le> 1 / 10 ^ 6
   \<and> jumpProgress (Fin (5 / 4)) jump_start = Fin (3 / 4)
   \<and> jump_step sinf_taylor (Fin (5 / 4)) jump_start
       = jump_start\<lparr>jumpHeight := Fin (11863283 / 33554432)\<rparr>
   \<and> \<bar>real_of_rat (11863283 / 33554432) - sin (real_of_rat (3 / 4) * pi) * (1 / 2)\<bar> \<le> 1 / 10 ^ 6
   \<and> fle (lit_f 1) (jumpProgress (Fin (7 / 4)) jump_start)
   \<and> jump_step sinf_taylor (Fin (7 / 4)) jump_start
       = jump_start\<lparr>jumpHeight := lit_f 0, isJumping := False, isFalling := True\<rparr>
   \<and> jump_endings sinf_taylor jump_start [Fin 1, Fin (7 / 4), Fin 2] = 1
   \<and> \<not> isJumping (jump_steps sinf_taylor jump_start [Fin 1, Fin (7 / 4), Fin 2])"
proof -
  note acc = sinf_taylor_accurate
  have j: "isJumping jump_start" by (simp add: jump_start_def)
  note p = jump_start_progress
  note st = jump_start_steps
  let ?ts = "[Fin 1, Fin (7 / 4), Fin 2]"
  have near: "\<bar>real_of_rat h - sin (real_of_rat q * pi) * (1 / 2)\<bar> \<le> 1 / 10 ^ 6"
    if "jumpProgress t jump_start = Fin q" "0 \<le> q" "q < 1"
      "jump_step sinf_taylor t jump_start = jump_start\<lparr>jumpHeight := Fin h\<rparr>" for t q h
  proof -
    from jump_offset_sine [where t = t and s = jump_start and sinf = sinf_taylor and p = q and ts = ?ts]
      acc j that(1,2,3)
    obtain h' where h': "jump_step sinf_taylor t jump_start = jump_start\<lparr>jumpHeight := Fin h'\<rparr>"
      "\<bar>real_of_rat h' - sin (real_of_rat q * pi) * (1 / 2)\<bar> \<le> 1 / 10 ^ 6"
      by blast
    from h'(1) that(4)
    have "jump_start\<lparr>jumpHeight := Fin h'\<rparr> = jump_start\<lparr>jumpHeight := Fin h\<rparr>" by simp
    then have "h' = h" by (rule offset_unique)
    with h'(2) show ?thesis by simp
  qed
  have n0: "\<bar>real_of_rat 0 - sin (real_of_rat 0 * pi) * (1 / 2)\<bar> \<le> 1 / 10 ^ 6"
    by (rule near [OF p(1) _ _ st(1)]) simp_all
  have n1: "\<bar>real_of_rat (11863283 / 33554432) - sin (real_of_rat (1 / 4) * pi) * (1 / 2)\<bar> \<le> 1 / 10 ^ 6"
    by (rule near [OF p(2) _ _ st(2)]) simp_all
  have n2: "\<bar>real_of_rat (1 / 2) - sin (real_of_rat (1 / 2) * pi) * (1 / 2)\<bar> \<le> 1 / 10 ^ 6"
    by (rule near [OF p(3) _ _ st(3)]) simp_all
  have n3: "\<bar>real_of_rat (11863283 / 33554432) - sin (real_of_rat (3 / 4) * pi) * (1 / 2)\<bar> \<le> 1 / 10 ^ 6"
    by (rule near [OF p(4) _ _ st(4)]) simp_all
  have b: "fle (lit_f 1) (jumpProgress (Fin (7 / 4)) jump_start)" by (simp add: p(5) lit_f_1)
  have c: "\<not> (\<forall>t \<in> set ?ts. flt (jumpProgress t jump_start) (lit_f 1))"
    by (simp add: p(5) lit_f_1)
  note at_7_4 = jump_offset_sine [where t = "Fin (7 / 4)" and s = jump_start and sinf = sinf_taylor
      and p = 0 and ts = ?ts]
  from at_7_4 j b have h2: "jump_step sinf_taylor (Fin (7 / 4)) jump_start
      = jump_start\<lparr>jumpHeight := lit_f 0, isJumping := False, isFalling := True\<rparr>"
    by blast
  from at_7_4 j have "jump_endings sinf_taylor jump_start ?ts
      = (if \<forall>t \<in> set ?ts. flt (jumpProgress t jump_start) (lit_f 1) then 0 else 1)"
    by blast
  with c have h3: "jump_endings sinf_taylor jump_start ?ts = 1"
    by (simp only: if_False)
  from at_7_4 j c have h4: "\<not> isJumping (jump_steps sinf_taylor jump_start ?ts)"
    by blast
  from acc j p(1) st(1) n0 p(2) st(2) n1 p(3) st(3) n2 p(4) st(4) n3 b h2 h3 h4 show ?thesis
    by blast
qed

text \<open>
  C2 as stated, with the offset equal to \<open>sin (progress * \<pi>) * 0.5\<close>, does not hold. At
  progress \<open>0.25\<close> the offset is the \<^verbatim>\<open>float\<close> \<open>11863283 / 2\<^sup>2\<^sup>5\<close>, which is the value that a
  correctly rounding \<^verbatim>\<open>sinf\<close> gives as well, and \<open>sin (\<pi> / 4) * 0.5\<close> is a quarter of the square
  root of \<open>2\<close>, which is no rational number.
\<close>

theorem jump_offset_not_exact:
  "sinf_accurate sinf_taylor \<and> isJumping jump_start
   \<and> jumpProgress (Fin (3 / 4)) jump_start = Fin (1 / 4)
   \<and> flt (jumpProgress (Fin (3 / 4)) jump_start) (lit_f 1)
   \<and> jumpHeight (jump_step sinf_taylor (Fin (3 / 4)) jump_start) = Fin (11863283 / 33554432)
   \<and> real_of_rat (11863283 / 33554432) \<noteq> sin (real_of_rat (1 / 4) * pi) * (1 / 2)"
proof -
  have "real_of_rat (11863283 / 33554432) \<noteq> sin (real_of_rat (1 / 4) * pi) * (1 / 2)"
  proof
    assume "real_of_rat (11863283 / 33554432) = sin (real_of_rat (1 / 4) * pi) * (1 / 2)"
    then have "sqrt 2 = 11863283 / 8388608"
      by (simp add: of_rat_divide sin_45)
    then have "(sqrt 2) ^ 2 = (11863283 / 8388608) ^ 2" by (rule arg_cong)
    then show False by (simp add: power_divide)
  qed
  then show ?thesis
    by (simp add: sinf_taylor_accurate jump_start_progress jump_start_steps lit_f_1)
      (simp add: jump_start_def)
qed

section \<open>The fall\<close>

lemma fall_step_landed: "\<not> isFalling s \<Longrightarrow> (fall_step ^^ k) s = s"
  by (induction k) (simp_all add: fall_step_def)

lemma fall_one:
  assumes "isFalling s" "jumpHeight s = Fin h" "0 < h" "h \<le> 2 ^ 21"
  obtains "fall_step s = s\<lparr>jumpHeight := Fin 0, isFalling := False\<rparr>"
  | h' where "fall_step s = s\<lparr>jumpHeight := Fin h'\<rparr>" "0 < h'" "h' \<le> h - 3 / 80"
proof -
  define c :: rat where "c = 13421773 / 2 ^ 27"
  have sub: "sub_f (jumpHeight s) jumpSpeed = rnd binary32 (h - c)"
    by (simp add: assms(2) jumpSpeed_val sub_f_def fsub_def c_def)
  have "\<bar>h - c\<bar> < 2 powi 21" using assms(3,4) by (simp add: c_def abs_if)
  from rnd_near [OF this, of binary32]
  obtain r where r: "rnd binary32 (h - c) = Fin r" "\<bar>r - (h - c)\<bar> \<le> 2 powi (21 - 24) / 2"
    by auto
  show ?thesis
  proof (cases "r \<le> 0")
    case True
    then have "fall_step s = s\<lparr>jumpHeight := Fin 0, isFalling := False\<rparr>"
      using assms(1) by (simp add: fall_step_def sub r(1) lit_f_0)
    then show ?thesis by (rule that(1))
  next
    case False
    then have f: "fall_step s = s\<lparr>jumpHeight := Fin r\<rparr>"
      using assms(1) by (simp add: fall_step_def sub r(1) lit_f_0)
    have "r - (h - c) \<le> 2 powi (21 - 24) / 2"
      using abs_ge_self [of "r - (h - c)"] r(2) by linarith
    then have "r \<le> h - 3 / 80" by (simp add: c_def)
    with f False show ?thesis using that(2) [of r] by simp
  qed
qed

lemma lands_after_step:
  assumes "lands_after (fall_step s) n"
    and "flt (jumpHeight (fall_step s)) (jumpHeight s)" "fle (Fin 0) (jumpHeight s)"
  shows "lands_after s (Suc n)"
proof -
  have sw: "(fall_step ^^ Suc k) s = (fall_step ^^ k) (fall_step s)" for k
    by (simp add: funpow_swap1)
  have dec: "flt (jumpHeight ((fall_step ^^ Suc k) s)) (jumpHeight ((fall_step ^^ k) s))"
    if "k < Suc n" for k
  proof (cases k)
    case 0
    with assms(2) show ?thesis by simp
  next
    case (Suc j)
    with that have "j < n" by simp
    with assms(1) have "flt (jumpHeight ((fall_step ^^ Suc j) (fall_step s)))
        (jumpHeight ((fall_step ^^ j) (fall_step s)))"
      unfolding lands_after_def by blast
    then show ?thesis unfolding Suc sw .
  qed
  have nonneg: "fle (Fin 0) (jumpHeight ((fall_step ^^ k) s))" for k
  proof (cases k)
    case 0
    with assms(3) show ?thesis by simp
  next
    case (Suc j)
    from assms(1) have "fle (Fin 0) (jumpHeight ((fall_step ^^ j) (fall_step s)))"
      unfolding lands_after_def by blast
    then show ?thesis unfolding Suc sw .
  qed
  from assms(1) have "jumpHeight ((fall_step ^^ n) (fall_step s)) = Fin 0"
    "\<not> isFalling ((fall_step ^^ n) (fall_step s))"
    unfolding lands_after_def by blast+
  then have "jumpHeight ((fall_step ^^ Suc n) s) = Fin 0"
    "\<not> isFalling ((fall_step ^^ Suc n) s)"
    unfolding sw .
  with dec nonneg show ?thesis unfolding lands_after_def by blast
qed

lemma fall_lands_bounded:
  "isFalling s \<Longrightarrow> jumpHeight s = Fin h \<Longrightarrow> 0 < h \<Longrightarrow> h \<le> 2 ^ 21 \<Longrightarrow>
   h \<le> of_nat n * (3 / 80) \<Longrightarrow> \<exists>m. lands_after s m"
proof (induction n arbitrary: s h)
  case 0
  then show ?case by simp
next
  case (Suc n)
  have nn: "fle (Fin 0) (jumpHeight s)" using Suc.prems(2,3) by simp
  from Suc.prems(1-4) show ?case
  proof (cases rule: fall_one)
    case 1
    then have l: "\<not> isFalling (fall_step s)" "jumpHeight (fall_step s) = Fin 0" by simp_all
    then have "lands_after (fall_step s) 0"
      by (simp add: lands_after_def fall_step_landed)
    moreover have "flt (jumpHeight (fall_step s)) (jumpHeight s)"
      using l Suc.prems(2,3) by simp
    ultimately have "lands_after s (Suc 0)" using nn by (rule lands_after_step)
    then show ?thesis ..
  next
    case (2 h')
    then have "isFalling (fall_step s)" "jumpHeight (fall_step s) = Fin h'"
      using Suc.prems(1) by simp_all
    moreover have "h' \<le> 2 ^ 21" using 2(3) Suc.prems(4) by simp
    moreover have "h' \<le> of_nat n * (3 / 80)"
      using 2(3) Suc.prems(5) by (simp add: algebra_simps)
    ultimately obtain m where "lands_after (fall_step s) m"
      using Suc.IH [of "fall_step s" h'] 2(2) by blast
    moreover have "flt (jumpHeight (fall_step s)) (jumpHeight s)"
      using 2 Suc.prems(2) by simp
    ultimately have "lands_after s (Suc m)" using nn by (rule lands_after_step)
    then show ?thesis ..
  qed
qed


text \<open>
  C3, as amended. For every initial offset above \<open>0\<close> and at most \<open>2097152\<close> (\<open>2\<^sup>2\<^sup>1\<close>) with
  \<open>isFalling\<close> set, iterating the fall step with the decrement \<open>jumpSpeed = 0.1f\<close> lowers
  the offset at each step, the offset after each step is never negative, and after
  finitely many steps the offset is exactly \<open>0\<close> and \<open>isFalling\<close> is clear.
\<close>

theorem fall_reaches_ground:
  assumes "isFalling s" "jumpHeight s = Fin h" "0 < h" "h \<le> 2 ^ 21"
  shows "\<exists>n. lands_after s n"
proof -
  have "h \<le> of_nat (nat \<lceil>h * (80 / 3)\<rceil>) * (3 / 80)"
  proof -
    have "h * (80 / 3) \<le> of_int \<lceil>h * (80 / 3)\<rceil>" by (rule le_of_int_ceiling)
    moreover have "0 \<le> \<lceil>h * (80 / 3)\<rceil>" using assms(3) by (simp add: ceiling_le_iff le_ceiling_iff)
    ultimately have "h * (80 / 3) \<le> of_nat (nat \<lceil>h * (80 / 3)\<rceil>)" by simp
    then show ?thesis by (simp add: field_simps)
  qed
  with assms show ?thesis by (rule fall_lands_bounded)
qed

theorem fall_reaches_ground_witness:
  "isFalling (initial_state\<lparr>isFalling := True, jumpHeight := Fin (1 / 4)\<rparr>)
   \<and> jumpHeight (initial_state\<lparr>isFalling := True, jumpHeight := Fin (1 / 4)\<rparr>) = Fin (1 / 4)
   \<and> (0 :: rat) < 1 / 4 \<and> (1 / 4 :: rat) \<le> 2 ^ 21
   \<and> (\<exists>n. lands_after (initial_state\<lparr>isFalling := True, jumpHeight := Fin (1 / 4)\<rparr>) n)
   \<and> (fall_step ^^ 3) (initial_state\<lparr>isFalling := True, jumpHeight := Fin (1 / 4)\<rparr>)
       = initial_state\<lparr>isFalling := False, jumpHeight := Fin 0\<rparr>"
proof -
  define s where "s = initial_state\<lparr>isFalling := True, jumpHeight := Fin (1 / 4)\<rparr>"
  have a: "isFalling s" "jumpHeight s = Fin (1 / 4)" by (simp_all add: s_def)
  have b: "(0 :: rat) < 1 / 4" "(1 / 4 :: rat) \<le> 2 ^ 21" by simp_all
  have s1: "fall_step s = s\<lparr>jumpHeight := Fin (5033165 / 33554432)\<rparr>"
    by (simp add: s_def fall_step_def sub_f_def fsub_def jumpSpeed_val lit_f_0 rnd32_fall_0)
  have s2: "fall_step (s\<lparr>jumpHeight := Fin (5033165 / 33554432)\<rparr>)
      = s\<lparr>jumpHeight := Fin (6710887 / 134217728)\<rparr>"
    by (simp add: s_def fall_step_def sub_f_def fsub_def jumpSpeed_val lit_f_0 rnd32_fall_1)
  have s3: "fall_step (s\<lparr>jumpHeight := Fin (6710887 / 134217728)\<rparr>)
      = s\<lparr>jumpHeight := Fin 0, isFalling := False\<rparr>"
    by (simp add: s_def fall_step_def sub_f_def fsub_def jumpSpeed_val lit_f_0 rnd32_fall_2)
  have "(fall_step ^^ 3) s = s\<lparr>jumpHeight := Fin 0, isFalling := False\<rparr>"
    by (simp add: numeral_3_eq_3 s1 s2 s3)
  with a b fall_reaches_ground [OF a b] show ?thesis
    unfolding s_def [symmetric] by (simp add: s_def)
qed

text \<open>
  C3 as stated fails for large offsets: subtracting \<open>0.1f\<close> from \<open>16777216.0f\<close> gives
  \<open>16777216.0f\<close> again, so the fall step leaves the state as it is, the offset does not
  decrease and never reaches \<open>0\<close>.
\<close>

theorem fall_stuck:
  "isFalling (initial_state\<lparr>isFalling := True, jumpHeight := lit_f 16777216\<rparr>)
   \<and> flt (lit_f 0) (jumpHeight (initial_state\<lparr>isFalling := True, jumpHeight := lit_f 16777216\<rparr>))
   \<and> fall_step (initial_state\<lparr>isFalling := True, jumpHeight := lit_f 16777216\<rparr>)
       = initial_state\<lparr>isFalling := True, jumpHeight := lit_f 16777216\<rparr>"
  by (simp add: fall_step_def lit_f_16777216 lit_f_0 sub_f_def fsub_def jumpSpeed_val rnd32_stuck)

text \<open>
  The bound of the amended claim is the largest: the next \<^verbatim>\<open>float\<close> above \<open>2097152\<close> is
  \<open>2097152.25\<close>, and the fall step leaves it as it is.
\<close>

lemma fall_stuck_above_bound:
  "lit_f (2097152 + 1 / 4) = Fin (2097152 + 1 / 4)
   \<and> fall_step (initial_state\<lparr>isFalling := True, jumpHeight := Fin (2097152 + 1 / 4)\<rparr>)
       = initial_state\<lparr>isFalling := True, jumpHeight := Fin (2097152 + 1 / 4)\<rparr>"
  by (simp add: fall_step_def lit_f_def lit_f_0 sub_f_def fsub_def jumpSpeed_val
      rnd32_stuck_least rnd32_2097152_25)

section \<open>The loop\<close>

lemma jump_fall_not_falling:
  "\<not> isFalling s \<Longrightarrow> \<not> isFalling (fall_step (jump_step sinf t s))"
  by (simp add: fall_step_def jump_step_def lit_f_0 fall_from_zero)

lemma frame_step_not_falling: "\<not> isFalling s \<Longrightarrow> \<not> isFalling (frame_step sinf f s)"
  by (simp add: frame_step_def Let_def jump_fall_not_falling)

lemma loop_states_not_falling:
  "\<not> isFalling s \<Longrightarrow> \<forall>s' \<in> set (loop_states sinf s fs). \<not> isFalling s'"
proof (induction fs arbitrary: s)
  case Nil
  then show ?case by simp
next
  case (Cons f fs)
  from Cons.prems have n: "\<not> isFalling (frame_step sinf f s)"
    by (rule frame_step_not_falling)
  from Cons.IH [OF n] n show ?case by simp
qed


text \<open>
  C9. At the end of every iteration that the loop executes, \<open>isFalling\<close> is clear: the
  fall step that follows the end of a jump in the same iteration starts from offset \<open>0\<close>
  and lands at once.
\<close>

theorem never_falling_after_iteration:
  "\<forall>s \<in> set (loop_states sinf initial_state fs). \<not> isFalling s"
  by (rule loop_states_not_falling) (simp add: initial_state_def)

theorem never_falling_after_iteration_witness:
  "length (loop_states sinf_approx initial_state demo_frames) = 3
   \<and> map isFalling (loop_states sinf_approx initial_state demo_frames) = [False, False, False]
   \<and> map isJumping (loop_states sinf_approx initial_state demo_frames) = [True, True, False]"
proof -
  have l: "length (loop_states sinf_approx initial_state demo_frames) = 3"
    by (rule demo_length)
  then obtain a b c where abc: "loop_states sinf_approx initial_state demo_frames = [a, b, c]"
    by (rule three_elements)
  from never_falling_after_iteration [of sinf_approx demo_frames]
  have "map isFalling (loop_states sinf_approx initial_state demo_frames) = [False, False, False]"
    unfolding abc by simp
  with l demo_flags [of sinf_approx] show ?thesis by simp
qed

lemma progress_cases:
  assumes "fle (Fin j) (Fin c)"
  obtains "div_f (sub_f (Fin c) (Fin j)) jumpDuration = PInf"
  | d p where "rnd binary32 d = Fin p" "0 \<le> p"
      "div_f (sub_f (Fin c) (Fin j)) jumpDuration = Fin p"
proof -
  from assms have "0 \<le> c + - j" by simp
  then have "fle (Fin 0) (rnd binary32 (c + - j))" by (rule rnd_nonneg)
  then show ?thesis
  proof (cases rule: fle_zero_cases)
    case 1
    then have "div_f (sub_f (Fin c) (Fin j)) jumpDuration = PInf"
      by (simp add: div_f_def sub_f_def fsub_def jumpDuration_def lit_f_1 inf_of_sign_def)
    then show ?thesis by (rule that(1))
  next
    case (2 d)
    then have e: "div_f (sub_f (Fin c) (Fin j)) jumpDuration = rnd binary32 d"
      by (simp add: div_f_def sub_f_def fsub_def jumpDuration_def lit_f_1)
    from 2 have "fle (Fin 0) (rnd binary32 d)" by (intro rnd_nonneg)
    then show ?thesis
    proof (cases rule: fle_zero_cases)
      case 1
      with e show ?thesis using that(1) by simp
    next
      case (2 p)
      with e show ?thesis using that(2) [of d p] by simp
    qed
  qed
qed

lemma jump_curve_nonneg:
  assumes s: "sinf_nonneg sinf" and p: "rnd binary32 d = Fin p" "0 \<le> p" "p < 1"
  shows "fle (Fin 0) (jump_curve sinf (Fin p))"
proof -
  define M :: rat where "M = 884279719003555 / 2 ^ 48"
  from p(1,3) have p1: "p \<le> 1 - 1 / 2 ^ 24" by (rule rnd32_below_one)
  have pm: "0 \<le> p * M" "p * M \<le> (1 - 1 / 2 ^ 24) * M"
    using p(2) p1 by (simp_all add: M_def)
  then have "\<bar>p * M\<bar> < 2 powi 2" by (simp add: M_def)
  from rnd_near [OF this, of binary64]
  obtain d2 where d2: "rnd binary64 (p * M) = Fin d2" "\<bar>d2 - p * M\<bar> \<le> 2 powi (2 - 53) / 2" "0 \<le> d2"
    using pm(1) by auto
  have "d2 - p * M \<le> 2 powi (2 - 53) / 2"
    using abs_ge_self [of "d2 - p * M"] d2(2) by linarith
  then have "d2 \<le> p * M + 1 / 2 ^ 52" by simp
  with pm(2) have d2le: "d2 \<le> (1 - 1 / 2 ^ 24) * M + 1 / 2 ^ 52" by simp
  with d2(3) have "\<bar>d2\<bar> < 2 powi 2" by (simp add: M_def)
  from rnd_near [OF this, of binary32]
  obtain a where a: "rnd binary32 d2 = Fin a" "\<bar>a - d2\<bar> \<le> 2 powi (2 - 24) / 2" "0 \<le> a"
    using d2(3) by auto
  have "a - d2 \<le> 2 powi (2 - 24) / 2"
    using abs_ge_self [of "a - d2"] a(2) by linarith
  then have "a \<le> d2 + 1 / 2 ^ 23" by simp
  with d2le have "a \<le> 31415926 / 10 ^ 7" by (simp add: M_def)
  with s a(3) have "fle (Fin 0) (sinf (Fin a))" by (simp add: sinf_nonneg_def)
  moreover have "jump_curve sinf (Fin p) = mul_f (sinf (Fin a)) (Fin (1 / 2))"
    by (simp only: jump_curve_def M_PI_val M_def [symmetric] mul_d_def fmul.simps d2(1)
        to_float_def cast.simps a(1) lit_f_half)
  ultimately show ?thesis
  proof (cases rule: fle_zero_cases)
    case 1
    then show ?thesis
      using \<open>jump_curve sinf (Fin p) = mul_f (sinf (Fin a)) (Fin (1 / 2))\<close>
      by (simp add: mul_f_def inf_of_sign_def fle_def)
  next
    case (2 r)
    then have "jump_curve sinf (Fin p) = rnd binary32 (r * (1 / 2))"
      using \<open>jump_curve sinf (Fin p) = mul_f (sinf (Fin a)) (Fin (1 / 2))\<close>
      by (simp add: mul_f_def)
    moreover have "fle (Fin 0) (rnd binary32 (r * (1 / 2)))"
      using 2 by (intro rnd_nonneg) simp
    ultimately show ?thesis by simp
  qed
qed

lemma fall_step_ok:
  assumes "motion_ok s"
  shows "motion_ok (fall_step s)"
proof (cases "isFalling s")
  case False
  with assms show ?thesis by (simp add: fall_step_def)
next
  case True
  from assms have "fle (Fin 0) (jumpHeight s)" by (simp add: motion_ok_def lit_f_0)
  then have nn: "sub_f (jumpHeight s) jumpSpeed \<noteq> NaN"
    by (cases rule: fle_zero_cases)
       (simp_all add: sub_f_def fsub_def jumpSpeed_val rnd_not_nan)
  show ?thesis
  proof (cases "fle (sub_f (jumpHeight s) jumpSpeed) (lit_f 0)")
    case landed: True
    with True assms show ?thesis by (simp add: fall_step_def motion_ok_def lit_f_0)
  next
    case False
    then have "fle (Fin 0) (sub_f (jumpHeight s) jumpSpeed)"
      using nn by (simp add: lit_f_0 not_fle_zero)
    with True False assms show ?thesis by (simp add: fall_step_def motion_ok_def lit_f_0)
  qed
qed

lemma jump_step_ok:
  assumes s: "sinf_nonneg sinf" and ok: "motion_ok s"
    and t: "isJumping s \<longrightarrow>
              is_finite (jumpStartTime s) \<and> is_finite t \<and> fle (jumpStartTime s) t"
  shows "motion_ok (jump_step sinf t s)"
proof (cases "isJumping s")
  case False
  with ok show ?thesis by (simp add: jump_step_def)
next
  case True
  with t obtain j c where jc: "jumpStartTime s = Fin j" "t = Fin c" "fle (Fin j) (Fin c)"
    by (cases "jumpStartTime s"; cases t) auto
  from ok True have nf: "\<not> isFalling s" by (simp add: motion_ok_def)
  have reset: "motion_ok (s\<lparr>jumpHeight := lit_f 0, isJumping := False, isFalling := True\<rparr>)"
    by (simp add: motion_ok_def lit_f_0)
  from jc(3) show ?thesis
  proof (cases rule: progress_cases)
    case 1
    then have "\<not> flt (jumpProgress t s) (lit_f 1)"
      by (simp add: jumpProgress_def jc flt_def lit_f_1)
    with True reset show ?thesis by (simp add: jump_step_def)
  next
    case (2 d p)
    then have jp: "jumpProgress t s = Fin p" by (simp add: jumpProgress_def jc)
    show ?thesis
    proof (cases "p < 1")
      case False
      with True reset jp show ?thesis by (simp add: jump_step_def lit_f_1)
    next
      case p1: True
      from s 2(1,2) p1 have "fle (Fin 0) (jump_curve sinf (Fin p))"
        by (rule jump_curve_nonneg)
      with True p1 jp nf show ?thesis
        by (simp add: jump_step_def lit_f_1 motion_ok_def lit_f_0)
    qed
  qed
qed

lemma frame_step_ok:
  assumes s: "sinf_nonneg sinf" and ok: "motion_ok s"
    and fin: "is_finite (to_float (glfwGetTime f))"
    and t: "isJumping s \<longrightarrow>
              is_finite (jumpStartTime s) \<and> fle (jumpStartTime s) (to_float (glfwGetTime f))"
  shows "motion_ok (frame_step sinf f s)"
proof -
  define t where "t = to_float (glfwGetTime f)"
  define s2 where "s2 = space_step t f (move_step f (escape_step f (time_step t s)))"
  have ok2: "motion_ok s2"
    using ok by (auto simp: motion_ok_def s2_def)
  have "isJumping s2 \<longrightarrow> is_finite (jumpStartTime s2) \<and> is_finite t \<and> fle (jumpStartTime s2) t"
    using fin t by (auto simp: s2_def t_def fle_refl_finite)
  with s ok2 have "motion_ok (jump_step sinf t s2)" by (rule jump_step_ok)
  then have "motion_ok (fall_step (jump_step sinf t s2))" by (rule fall_step_ok)
  then have "motion_ok (poll_step f (fall_step (jump_step sinf t s2)))"
    by (simp add: motion_ok_def)
  then show ?thesis
    by (simp add: frame_step_def Let_def s2_def t_def)
qed

lemma frame_step_jumpStart:
  "isJumping (frame_step sinf f s) \<Longrightarrow>
   jumpStartTime (frame_step sinf f s)
     = (if key_space f \<and> \<not> isJumping s then to_float (glfwGetTime f) else jumpStartTime s)
   \<and> (isJumping s \<or> key_space f)"
  by (auto simp add: frame_step_def Let_def jump_step_def split: if_splits)

lemma frame_step_loop_inv:
  assumes s: "sinf_nonneg sinf" and inv: "loop_inv s"
    and fin: "is_finite (to_float (glfwGetTime f))"
    and mono: "fle (lastFrame s) (to_float (glfwGetTime f))"
  shows "loop_inv (frame_step sinf f s)"
proof -
  have t: "isJumping s \<longrightarrow>
      is_finite (jumpStartTime s) \<and> fle (jumpStartTime s) (to_float (glfwGetTime f))"
    using inv mono by (auto simp: loop_inv_def intro: fle_trans)
  from inv have "motion_ok s" by (simp add: loop_inv_def)
  with s have "motion_ok (frame_step sinf f s)" using fin t by (rule frame_step_ok)
  moreover have "isJumping (frame_step sinf f s) \<longrightarrow>
     is_finite (jumpStartTime (frame_step sinf f s))
     \<and> fle (jumpStartTime (frame_step sinf f s)) (to_float (glfwGetTime f))"
    using t fin by (auto dest!: frame_step_jumpStart simp: fle_refl_finite split: if_splits)
  ultimately show ?thesis using fin by (simp add: loop_inv_def)
qed

lemma loop_states_inv:
  assumes "sinf_nonneg sinf"
  shows "loop_inv s \<Longrightarrow> clock_ok (lastFrame s) fs \<Longrightarrow>
         \<forall>s' \<in> set (loop_states sinf s fs). loop_inv s'"
proof (induction fs arbitrary: s)
  case Nil
  then show ?case by simp
next
  case (Cons f fs)
  from Cons.prems(2) have fin: "is_finite (to_float (glfwGetTime f))"
    and mono: "fle (lastFrame s) (to_float (glfwGetTime f))"
    and rest: "clock_ok (to_float (glfwGetTime f)) fs"
    by simp_all
  from assms Cons.prems(1) fin mono have i: "loop_inv (frame_step sinf f s)"
    by (rule frame_step_loop_inv)
  from rest have "clock_ok (lastFrame (frame_step sinf f s)) fs" by simp
  from Cons.IH [OF i this] i show ?case by simp
qed


text \<open>
  C4. Provided \<^verbatim>\<open>sinf\<close> is not negative between \<open>0\<close> and \<open>3.1415926\<close>: when the frame times
  are numbers and never decrease, every state at the end of an iteration of the loop,
  started from the initial state, has an offset that is not negative and at most one of
  \<open>isJumping\<close> and \<open>isFalling\<close> set; and an iteration from any state with this property
  leads to a state with it, when the frame time is a number and not before the start
  of a jump under way.
\<close>

theorem motion_invariant:
  assumes "sinf_nonneg sinf"
  shows "(clock_ok (lastFrame initial_state) fs \<longrightarrow>
           (\<forall>s \<in> set (loop_states sinf initial_state fs). motion_ok s))
       \<and> (motion_ok s \<and> is_finite (to_float (glfwGetTime f))
           \<and> (isJumping s \<longrightarrow> is_finite (jumpStartTime s)
                 \<and> fle (jumpStartTime s) (to_float (glfwGetTime f)))
           \<longrightarrow> motion_ok (frame_step sinf f s))"
proof -
  have "loop_inv initial_state"
    by (simp add: loop_inv_def motion_ok_def initial_state_def lit_f_0)
  from loop_states_inv [OF assms this]
  have "clock_ok (lastFrame initial_state) fs \<longrightarrow>
           (\<forall>s \<in> set (loop_states sinf initial_state fs). motion_ok s)"
    by (auto simp: loop_inv_def)
  moreover have "motion_ok s \<and> is_finite (to_float (glfwGetTime f))
           \<and> (isJumping s \<longrightarrow> is_finite (jumpStartTime s)
                 \<and> fle (jumpStartTime s) (to_float (glfwGetTime f)))
           \<longrightarrow> motion_ok (frame_step sinf f s)"
    using frame_step_ok [OF assms] by blast
  ultimately show ?thesis ..
qed

theorem motion_invariant_witness:
  "sinf_nonneg sinf_approx
   \<and> clock_ok (lastFrame initial_state) demo_frames
   \<and> length (loop_states sinf_approx initial_state demo_frames) = 3
   \<and> motion_ok (loop_states sinf_approx initial_state demo_frames ! 0)
   \<and> motion_ok (loop_states sinf_approx initial_state demo_frames ! 1)
   \<and> motion_ok (loop_states sinf_approx initial_state demo_frames ! 2)
   \<and> motion_ok initial_state \<and> \<not> isJumping initial_state
   \<and> is_finite (to_float (glfwGetTime (jump_frame (Fin (1 / 2)))))
   \<and> motion_ok (frame_step sinf_approx (jump_frame (Fin (1 / 2))) initial_state)"
proof -
  have l: "length (loop_states sinf_approx initial_state demo_frames) = 3"
    by (rule demo_length)
  have i: "motion_ok initial_state" "\<not> isJumping initial_state"
    by (simp_all add: motion_ok_def initial_state_def lit_f_0)
  have t: "is_finite (to_float (glfwGetTime (jump_frame (Fin (1 / 2)))))"
    by (simp add: jump_frame_def idle_frame_def demo_times)
  from motion_invariant [OF sinf_approx_nonneg, of demo_frames initial_state "jump_frame (Fin (1 / 2))"]
    demo_clock i t
  have "\<forall>s \<in> set (loop_states sinf_approx initial_state demo_frames). motion_ok s"
    and "motion_ok (frame_step sinf_approx (jump_frame (Fin (1 / 2))) initial_state)"
    by simp_all
  with l i t sinf_approx_nonneg demo_clock show ?thesis by simp
qed

section \<open>Exit codes\<close>

lemma frame_step_close:
  "key_escape f \<or> close_request f \<Longrightarrow> shouldClose (frame_step sinf f s)"
  by (auto simp add: frame_step_def Let_def)

lemma render_loop_closed: "shouldClose s \<Longrightarrow> render_loop sinf s fs = Some s"
  by (cases fs) simp_all

lemma render_loop_returns:
  "\<exists>f \<in> set fs. key_escape f \<or> close_request f \<Longrightarrow> \<exists>s'. render_loop sinf s fs = Some s'"
proof (induction fs arbitrary: s)
  case Nil
  then show ?case by simp
next
  case (Cons f fs)
  show ?case
  proof (cases "shouldClose s")
    case True
    then show ?thesis by simp
  next
    case False
    show ?thesis
    proof (cases "key_escape f \<or> close_request f")
      case True
      then have "shouldClose (frame_step sinf f s)" by (rule frame_step_close)
      then show ?thesis using False by (simp add: render_loop_closed)
    next
      case no: False
      with Cons.prems have "\<exists>f \<in> set fs. key_escape f \<or> close_request f" by auto
      from Cons.IH [OF this] show ?thesis using False by simp
    qed
  qed
qed


text \<open>
  C8. \<open>main\<close> writes a message to standard error and returns \<open>-1\<close> when \<^verbatim>\<open>glfwInit\<close> fails,
  when the window cannot be created and when \<^verbatim>\<open>glewInit\<close> fails. After a successful
  initialisation it returns once the close flag of the window is set, by the escape key
  or by a close request, and whenever it returns it returns \<open>0\<close>.
\<close>

theorem main_exit_codes:
  "(\<not> glfwInit_ok st \<longrightarrow> main sinf st fs = Some ([''Failed to initialize GLFW''], - 1))
   \<and> (glfwInit_ok st \<and> \<not> window_ok st \<longrightarrow>
        main sinf st fs = Some ([''Failed to create GLFW window''], - 1))
   \<and> (glfwInit_ok st \<and> window_ok st \<and> \<not> glewInit_ok st \<longrightarrow>
        main sinf st fs = Some ([''Failed to initialize GLEW''], - 1))
   \<and> (glfwInit_ok st \<and> window_ok st \<and> glewInit_ok st
        \<and> (\<exists>f \<in> set fs. key_escape f \<or> close_request f) \<longrightarrow>
        main sinf st fs = Some (createShaderProgram_err st, 0))
   \<and> (glfwInit_ok st \<and> window_ok st \<and> glewInit_ok st \<longrightarrow>
        (\<forall>r. main sinf st fs = Some r \<longrightarrow> snd r = 0))"
proof -
  have ok: "main sinf st fs = Some (createShaderProgram_err st, 0)"
    if "glfwInit_ok st" "window_ok st" "glewInit_ok st"
      and "\<exists>f \<in> set fs. key_escape f \<or> close_request f"
  proof -
    from that(4) obtain s' where "render_loop sinf initial_state fs = Some s'"
      using render_loop_returns by blast
    with that(1-3) show ?thesis by (simp add: main_def)
  qed
  have zero: "snd r = 0"
    if "glfwInit_ok st" "window_ok st" "glewInit_ok st" and "main sinf st fs = Some r" for r
    using that by (auto simp: main_def split: option.splits)
  show ?thesis
    using ok zero by (simp add: main_def)
qed

theorem main_exit_codes_witness:
  "main sinf_approx
      \<lparr>glfwInit_ok = True, window_ok = True, glewInit_ok = True,
       vertex_log = None, fragment_log = None, link_log = None\<rparr>
      [idle_frame (Fin (1 / 2)), close_frame (Fin 1)] = Some ([], 0)
   \<and> main sinf_approx
      \<lparr>glfwInit_ok = False, window_ok = True, glewInit_ok = True,
       vertex_log = None, fragment_log = None, link_log = None\<rparr>
      [] = Some ([''Failed to initialize GLFW''], - 1)
   \<and> main sinf_approx
      \<lparr>glfwInit_ok = True, window_ok = False, glewInit_ok = True,
       vertex_log = None, fragment_log = None, link_log = None\<rparr>
      [] = Some ([''Failed to create GLFW window''], - 1)
   \<and> main sinf_approx
      \<lparr>glfwInit_ok = True, window_ok = True, glewInit_ok = False,
       vertex_log = None, fragment_log = None, link_log = None\<rparr>
      [] = Some ([''Failed to initialize GLEW''], - 1)"
proof -
  have c: "\<exists>f \<in> set [idle_frame (Fin (1 / 2)), close_frame (Fin 1)]. key_escape f \<or> close_request f"
    by (simp add: close_frame_def)
  from c
    main_exit_codes [of "\<lparr>glfwInit_ok = True, window_ok = True, glewInit_ok = True,
       vertex_log = None, fragment_log = None, link_log = None\<rparr>" sinf_approx
       "[idle_frame (Fin (1 / 2)), close_frame (Fin 1)]"]
    main_exit_codes [of "\<lparr>glfwInit_ok = False, window_ok = True, glewInit_ok = True,
       vertex_log = None, fragment_log = None, link_log = None\<rparr>" sinf_approx "[]"]
    main_exit_codes [of "\<lparr>glfwInit_ok = True, window_ok = False, glewInit_ok = True,
       vertex_log = None, fragment_log = None, link_log = None\<rparr>" sinf_approx "[]"]
    main_exit_codes [of "\<lparr>glfwInit_ok = True, window_ok = True, glewInit_ok = False,
       vertex_log = None, fragment_log = None, link_log = None\<rparr>" sinf_approx "[]"]
  show ?thesis
    by (simp add: createShaderProgram_err_def compileShader_err_def)
qed

end
